theory Spec2Isabelle
  imports Complex_Main
begin

section \<open>Python text\<close>

text \<open>
  A Python \<open>str\<close> is a sequence of Unicode code points, modelled as a list of naturals;
  \<open>len\<close>, slicing and equality are those of the list. \<open>py\<close> turns an ASCII literal
  into such a list. Whitespace is the set \<open>str.isspace\<close> accepts. Case mapping
  (\<open>str.lower\<close>) is modelled on the ASCII letters; other code points are left as they are.
\<close>

type_synonym pystr = "nat list"

definition py :: "string \<Rightarrow> pystr" where
  "py s = map of_char s"

definition isspace :: "nat \<Rightarrow> bool" where
  "isspace c \<longleftrightarrow>
     (9 \<le> c \<and> c \<le> 13) \<or> (28 \<le> c \<and> c \<le> 32) \<or> c = 133 \<or> c = 160 \<or> c = 5760 \<or>
     (8192 \<le> c \<and> c \<le> 8202) \<or> c = 8232 \<or> c = 8233 \<or> c = 8239 \<or> c = 8287 \<or> c = 12288"

definition lstrip :: "pystr \<Rightarrow> pystr" where
  "lstrip s = dropWhile isspace s"

definition rstrip :: "pystr \<Rightarrow> pystr" where
  "rstrip s = rev (dropWhile isspace (rev s))"

definition strip :: "pystr \<Rightarrow> pystr" where
  "strip s = rstrip (lstrip s)"

definition lower_char :: "nat \<Rightarrow> nat" where
  "lower_char c = (if 65 \<le> c \<and> c \<le> 90 then c + 32 else c)"

definition lower :: "pystr \<Rightarrow> pystr" where
  "lower s = map lower_char s"

text \<open>\<open>s.split()\<close>: the maximal runs of non-whitespace, in order.\<close>

fun split_aux :: "pystr \<Rightarrow> pystr \<Rightarrow> pystr list" where
  "split_aux cur [] = (if cur = [] then [] else [rev cur])"
| "split_aux cur (c # cs) =
     (if isspace c then (if cur = [] then split_aux [] cs else rev cur # split_aux [] cs)
      else split_aux (c # cur) cs)"

definition split :: "pystr \<Rightarrow> pystr list" where
  "split s = split_aux [] s"

text \<open>\<open>needle in s\<close> on strings.\<close>

fun contains :: "pystr \<Rightarrow> pystr \<Rightarrow> bool" where
  "contains needle [] = (needle = [])"
| "contains needle (c # cs) = (take (length needle) (c # cs) = needle \<or> contains needle cs)"

definition startswith :: "pystr \<Rightarrow> pystr \<Rightarrow> bool" where
  "startswith s p \<longleftrightarrow> take (length p) s = p"

section \<open>Canonical video URLs\<close>

text \<open>
  The character class \<open>[A-Za-z0-9_-]\<close> of both identifier patterns.
\<close>

definition idchar :: "nat \<Rightarrow> bool" where
  "idchar c \<longleftrightarrow> (65 \<le> c \<and> c \<le> 90) \<or> (97 \<le> c \<and> c \<le> 122) \<or> (48 \<le> c \<and> c \<le> 57) \<or> c = 95 \<or> c = 45"

text \<open>
  Both patterns are a literal (one of several alternatives, tried in order) followed by the
  group \<open>([A-Za-z0-9_-]{6,})\<close>. The group is greedy and nothing follows it, so at a
  position the match is the first alternative that is a prefix there and is followed by at
  least six identifier characters, and the group is the whole run of them. \<open>search\<close> takes
  the leftmost position with a match.
\<close>

fun match_here :: "pystr list \<Rightarrow> pystr \<Rightarrow> pystr option" where
  "match_here [] s = None"
| "match_here (p # ps) s =
     (if startswith s p \<and> 6 \<le> length (takeWhile idchar (drop (length p) s))
      then Some (takeWhile idchar (drop (length p) s))
      else match_here ps s)"

fun re_search :: "pystr list \<Rightarrow> pystr \<Rightarrow> pystr option" where
  "re_search ps [] = match_here ps []"
| "re_search ps (c # cs) =
     (case match_here ps (c # cs) of Some g \<Rightarrow> Some g | None \<Rightarrow> re_search ps cs)"

definition YOUTUBE_ID_RE :: "pystr list" where
  "YOUTUBE_ID_RE = [py ''youtu.be/'', py ''youtube.com/watch?v='',
                    py ''youtube.com/shorts/'', py ''youtube.com/embed/'']"

definition STUDIO_ID_RE :: "pystr list" where
  "STUDIO_ID_RE = [py ''studio.youtube.com/video/'']"

text \<open>
  The standard library and the outside world are parameters of the model:
  \<open>urlparse\<close> gives (netloc, path, query) of a URL or raises (\<open>None\<close>), \<open>parse_qs\<close>
  gives the query's fields or raises, \<open>fetch_url_text\<close> is the page download of
  \<open>fetch_url_text\<close> (\<open>None\<close> when it raises), \<open>ytdlp\<close> says whether the extraction
  tool is found, and \<open>run_ytdlp\<close> is its standard output (\<open>None\<close> when running it raises).
\<close>

record env =
  urlparse :: "pystr \<Rightarrow> (pystr \<times> pystr \<times> pystr) option"
  parse_qs :: "pystr \<Rightarrow> (pystr \<times> pystr list) list option"
  fetch_url_text :: "pystr \<Rightarrow> pystr option"
  ytdlp :: bool
  run_ytdlp :: "pystr \<Rightarrow> pystr option"

definition watch_url :: "pystr \<Rightarrow> pystr" where
  "watch_url vid = py ''https://www.youtube.com/watch?v='' @ vid"

definition normalize_youtube_url :: "env \<Rightarrow> pystr \<Rightarrow> pystr option" where
  "normalize_youtube_url E url =
     (if url = [] then None
      else let u = strip url in
        if u = [] then None
        else if contains (py ''studio.youtube.com'') u then
          (case re_search STUDIO_ID_RE u of
             Some g \<Rightarrow> Some (watch_url g)
           | None \<Rightarrow> None)
        else
          (case re_search YOUTUBE_ID_RE u of
             Some vid \<Rightarrow> Some (watch_url vid)
           | None \<Rightarrow>
              (case urlparse E u of
                 None \<Rightarrow> None
               | Some (netloc, path, query) \<Rightarrow>
                   if contains (py ''youtube.com'') netloc \<and> path = py ''/watch'' then
                     (case parse_qs E query of
                        None \<Rightarrow> None
                      | Some qs \<Rightarrow>
                          (case map_of qs (py ''v'') of
                             Some (vid # _) \<Rightarrow> if vid \<noteq> [] then Some (watch_url vid) else None
                           | _ \<Rightarrow> None))
                   else None)))"

section \<open>Records\<close>

text \<open>
  The dictionary \<open>item\<close> that \<open>main\<close> builds for a row. Text fields are never \<open>None\<close>
  there; a metric is \<open>None\<close> or an integer.
\<close>

record item =
  channel :: pystr
  dtype :: pystr
  title :: pystr
  link :: pystr
  date_raw :: pystr
  date_iso :: pystr
  month :: pystr
  date_source :: pystr
  impressions :: "int option"
  views :: "int option"
  engagements :: "int option"
  clicks :: "int option"
  attendees :: "int option"
  chat_count :: "int option"
  email_sends :: "int option"
  article_views :: "int option"
  interactions :: "int option"
  report_month :: pystr

section \<open>Identity key\<close>

text \<open>
  The key is a tuple of four or five strings; a list keeps the two lengths apart.
\<close>

type_synonym key = "pystr list"

definition norm_link_of :: "env \<Rightarrow> item \<Rightarrow> pystr" where
  "norm_link_of E it =
     (let ch = strip (channel it); l = strip (link it) in
      if lower ch = py ''youtube'' \<and> l \<noteq> [] then
        (case normalize_youtube_url E l of
           Some nl \<Rightarrow> if nl \<noteq> [] then nl else l
         | None \<Rightarrow> l)
      else l)"

definition dedup_key :: "env \<Rightarrow> item \<Rightarrow> key" where
  "dedup_key E it =
     (let ch = strip (channel it);
          ty = strip (dtype it);
          ti = strip (title it);
          norm_link = norm_link_of E it
      in
        if norm_link = [] then
          (if ti = [] then [ch, ty, ti, norm_link, date_iso it]
           else if lower ch = py ''linkedin'' \<or> lower ch = py ''instagram''
             then [ch, ty, ti, norm_link, date_iso it]
           else [ch, ty, ti, norm_link])
        else [ch, ty, ti, norm_link])"

section \<open>Merging records with the same key\<close>

definition DATE_PRIORITY :: "(pystr \<times> int) list" where
  "DATE_PRIORITY = [(py ''provided'', 3), (py ''youtube_publish'', 2),
                    (py ''inferred_report_month'', 1), (py ''unknown'', 0)]"

text \<open>\<open>DATE_PRIORITY.get(src, 0)\<close>\<close>

definition priority :: "pystr \<Rightarrow> int" where
  "priority src = (case map_of DATE_PRIORITY src of Some p \<Rightarrow> p | None \<Rightarrow> 0)"

text \<open>\<open>x or 0\<close> on a metric and \<open>a or b\<close> on strings.\<close>

definition or0 :: "int option \<Rightarrow> int" where
  "or0 x = (case x of None \<Rightarrow> 0 | Some v \<Rightarrow> v)"

definition str_or :: "pystr \<Rightarrow> pystr \<Rightarrow> pystr" where
  "str_or a b = (if a \<noteq> [] then a else b)"

text \<open>
  The branch that keeps the stored record and adopts the date of the new one mutates the
  stored dictionary in place; the stored record is referenced from the map only, so the
  mutation is the replacement of the map's entry by the record returned here.
\<close>

definition graft :: "item \<Rightarrow> item \<Rightarrow> item" where
  "graft prev new =
     prev\<lparr>date_raw := str_or (date_raw new) (date_raw prev),
          date_iso := str_or (date_iso new) (date_iso prev),
          month := str_or (month new) (month prev),
          date_source := date_source new\<rparr>"

definition merge :: "item \<Rightarrow> item \<Rightarrow> item" where
  "merge prev new =
     (let p1 = priority (date_source prev);
          p2 = priority (date_source new);
          prev_imp = or0 (impressions prev);
          new_imp = or0 (impressions new)
      in
        if p2 > p1 then
          (if prev_imp > new_imp * 10 \<and> prev_imp > 100 then graft prev new else new)
        else if p2 = p1 then
          (if new_imp > prev_imp then new else prev)
        else prev)"

text \<open>
  \<open>items_by_key\<close> is a dictionary; its iteration order is the order of first insertion,
  which the second pass depends on, so it is an association list with distinct keys:
  assigning to a key that is present replaces the value where it stands.
\<close>

type_synonym items_map = "(key \<times> item) list"

fun dict_set :: "'k \<Rightarrow> 'v \<Rightarrow> ('k \<times> 'v) list \<Rightarrow> ('k \<times> 'v) list" where
  "dict_set k v [] = [(k, v)]"
| "dict_set k v ((k', v') # m) = (if k' = k then (k, v) # m else (k', v') # dict_set k v m)"

definition add_item :: "env \<Rightarrow> items_map \<Rightarrow> item \<Rightarrow> items_map" where
  "add_item E m new =
     (let k = dedup_key E new in
      case map_of m k of
        None \<Rightarrow> dict_set k new m
      | Some prev \<Rightarrow> dict_set k (merge prev new) m)"

definition merge_all :: "env \<Rightarrow> item list \<Rightarrow> items_map" where
  "merge_all E rows = foldl (add_item E) [] rows"

text \<open>
  A machine without network access and without the extraction tool, for the examples;
  the links of the examples have no scheme, host or query, so \<open>urlparse\<close> gives the whole
  text as the path.
\<close>

definition offline_env :: env where
  "offline_env = \<lparr>urlparse = (\<lambda>u. Some ([], u, [])), parse_qs = (\<lambda>q. Some []),
     fetch_url_text = (\<lambda>u. None), ytdlp = False, run_ytdlp = (\<lambda>u. None)\<rparr>"

text \<open>A record with the given identity and date fields and impressions, no other metric.\<close>

definition mk_item ::
  "string \<Rightarrow> string \<Rightarrow> string \<Rightarrow> string \<Rightarrow> string \<Rightarrow> string \<Rightarrow> string \<Rightarrow> string \<Rightarrow> int option \<Rightarrow> item" where
  "mk_item ch ty ti li draw diso mo src imp =
     \<lparr>channel = py ch, dtype = py ty, title = py ti, link = py li, date_raw = py draw,
      date_iso = py diso, month = py mo, date_source = py src, impressions = imp,
      views = None, engagements = None, clicks = None, attendees = None, chat_count = None,
      email_sends = None, article_views = None, interactions = None, report_month = []\<rparr>"

section \<open>Reconciling inferred dates\<close>

text \<open>\<open>t.rstrip(".")\<close> and the local function \<open>clean_title\<close> of \<open>main\<close>.\<close>

definition rstrip_dots :: "pystr \<Rightarrow> pystr" where
  "rstrip_dots t = rev (dropWhile (\<lambda>c. c = 46) (rev t))"

definition clean_title :: "pystr \<Rightarrow> pystr" where
  "clean_title t = rstrip_dots (lower (strip t))"

definition dated_items :: "items_map \<Rightarrow> items_map" where
  "dated_items m =
     filter (\<lambda>(k, it). date_source it = py ''provided'' \<or> date_source it = py ''youtube_publish'') m"

text \<open>
  The inner loop over \<open>dated_items\<close>: \<open>match_step\<close> is its body, with
  \<open>(best_mk, best_mit)\<close> as the accumulator (a \<open>continue\<close> leaves it as it is);
  \<open>rem\<close> is \<open>keys_to_remove\<close>, \<open>ch\<close> and \<open>ct\<close> the channel and cleaned title of the
  inferred record \<open>it\<close>.
\<close>

definition match_step ::
  "key set \<Rightarrow> item \<Rightarrow> pystr \<Rightarrow> pystr \<Rightarrow> (key \<times> item) option \<Rightarrow> key \<times> item \<Rightarrow> (key \<times> item) option" where
  "match_step rem it ch ct best cand =
     (case cand of (mk, mit) \<Rightarrow>
      if mk \<in> rem then best
      else if lower (strip (channel mit)) \<noteq> ch then best
      else let mt = clean_title (title mit) in
        if mt = [] \<or> length mt < 8 then best
        else let shorter = min (length ct) (length mt) in
          if shorter < 8 then best
          else let prefix_len = min shorter 10 in
            if take prefix_len ct = take prefix_len mt then
              (case best of
                 None \<Rightarrow> Some (mk, mit)
               | Some (best_mk, best_mit) \<Rightarrow>
                   if dtype mit = dtype it \<and> dtype best_mit \<noteq> dtype it
                   then Some (mk, mit)
                   else best)
            else best)"

definition find_best ::
  "key set \<Rightarrow> item \<Rightarrow> pystr \<Rightarrow> pystr \<Rightarrow> items_map \<Rightarrow> (key \<times> item) option" where
  "find_best rem it ch ct dated = foldl (match_step rem it ch ct) None dated"

text \<open>The inferred record takes the date of the dated one, and its link if it has none.\<close>

definition adopt :: "item \<Rightarrow> item \<Rightarrow> item" where
  "adopt it best_mit =
     it\<lparr>date_iso := date_iso best_mit,
        date_raw := date_raw best_mit,
        month := month best_mit,
        date_source := py ''matched_'' @ date_source best_mit,
        link := (if link best_mit \<noteq> [] \<and> link it = [] then link best_mit else link it)\<rparr>"

text \<open>
  One iteration of the outer loop over the snapshot \<open>list(items_by_key.items())\<close>. The
  loop mutates the record \<open>it\<close> in place, which is the object the map holds under \<open>k\<close>;
  no record is mutated before its own iteration and the records of \<open>dated_items\<close> are
  never mutated, so the snapshot's values are the current ones.
\<close>

definition reconcile_step ::
  "items_map \<Rightarrow> key \<times> item \<Rightarrow> items_map \<times> key set \<Rightarrow> items_map \<times> key set" where
  "reconcile_step dated kit s =
     (case kit of (k, it) \<Rightarrow> case s of (m, rem) \<Rightarrow>
        if k \<in> rem then (m, rem)
        else if date_source it \<noteq> py ''inferred_report_month'' then (m, rem)
        else let ti = strip (title it) in
          if ti = [] then (m, rem)
          else let ch = lower (strip (channel it)); ct = clean_title ti in
            (case find_best rem it ch ct dated of
               None \<Rightarrow> (m, rem)
             | Some (best_mk, best_mit) \<Rightarrow>
                 let inf_imp = or0 (impressions it);
                     dated_imp = or0 (impressions best_mit)
                 in if inf_imp \<ge> dated_imp
                    then (dict_set k (adopt it best_mit) m, insert best_mk rem)
                    else (m, insert k rem)))"

definition reconcile_loop ::
  "items_map \<Rightarrow> items_map \<Rightarrow> items_map \<times> key set \<Rightarrow> items_map \<times> key set" where
  "reconcile_loop dated snapshot s = foldl (\<lambda>s kit. reconcile_step dated kit s) s snapshot"

definition reconcile :: "items_map \<Rightarrow> items_map" where
  "reconcile m =
     (case reconcile_loop (dated_items m) m (m, {}) of
        (m', keys_to_remove) \<Rightarrow> filter (\<lambda>(k, it). k \<notin> keys_to_remove) m')"

text \<open>
  Example records: a re-listed post with a date inferred from the reporting period and the
  same post with its provided date; and a pair whose shorter title has eight characters.
\<close>

definition recap_item :: item where
  "recap_item = mk_item ''LinkedIn'' ''Post'' ''Quarterly Budget Planning Webinar Recap'' ''''
     '''' ''2025-07-01'' ''2025-07'' ''inferred_report_month'' (Some 50)"

definition webinar_item :: item where
  "webinar_item = mk_item ''LinkedIn'' ''Post'' ''Quarterly Budget Planning Webinar'' ''''
     ''9 Apr 2025'' ''2025-04-09'' ''2025-04'' ''provided'' (Some 30)"

definition short_item :: item where
  "short_item = mk_item ''linkedin'' ''Post'' ''Q3 recap'' ''''
     '''' ''2025-07-01'' ''2025-07'' ''inferred_report_month'' (Some 50)"

definition long_item :: item where
  "long_item = mk_item ''LinkedIn'' ''Post'' ''Q3 recap and outlook'' ''''
     ''9 Apr 2025'' ''2025-04-09'' ''2025-04'' ''provided'' (Some 30)"

section \<open>Integers and dates from text\<close>

text \<open>
  Exceptions are values. \<open>int(s)\<close> on a string: surrounding whitespace is dropped, then an
  optional sign and decimal digits, where single underscores may stand between digits;
  anything else raises \<open>ValueError\<close>. Digits are the ASCII digits here (also for \<open>\d\<close>
  and \<open>float\<close> below); the decimal digits of other scripts, which Python would accept as
  well, are outside the model.
\<close>

datatype py_error = ValueError | OverflowError

definition isdigit :: "nat \<Rightarrow> bool" where
  "isdigit c \<longleftrightarrow> 48 \<le> c \<and> c \<le> 57"

text \<open>
  The longest prefix \<open>digit (["_"] digit)*\<close> of a string: its digits, and the rest.
\<close>

fun scan_digits :: "pystr \<Rightarrow> pystr \<times> pystr" where
  "scan_digits [] = ([], [])"
| "scan_digits [c] = (if isdigit c then ([c], []) else ([], [c]))"
| "scan_digits (c # d # cs) =
     (if \<not> isdigit c then ([], c # d # cs)
      else if isdigit d then (case scan_digits (d # cs) of (ds, r) \<Rightarrow> (c # ds, r))
      else if d = 95 \<and> cs \<noteq> [] \<and> isdigit (hd cs) then (case scan_digits cs of (ds, r) \<Rightarrow> (c # ds, r))
      else ([c], d # cs))"

definition digits_val :: "pystr \<Rightarrow> nat" where
  "digits_val ds = foldl (\<lambda>a c. a * 10 + (c - 48)) 0 ds"

text \<open>
  The whitespace that \<open>int\<close> and \<open>float\<close> drop around a number: the ASCII characters
  tab to carriage return and the space, and the whitespace beyond ASCII.
\<close>

definition num_space :: "nat \<Rightarrow> bool" where
  "num_space c \<longleftrightarrow> (9 \<le> c \<and> c \<le> 13) \<or> c = 32 \<or> (127 \<le> c \<and> isspace c)"

definition num_strip :: "pystr \<Rightarrow> pystr" where
  "num_strip s = rev (dropWhile num_space (rev (dropWhile num_space s)))"

definition py_int :: "pystr \<Rightarrow> py_error + int" where
  "py_int s =
     (let t = num_strip s;
          neg = (t \<noteq> [] \<and> hd t = 45);
          body = (if t \<noteq> [] \<and> (hd t = 45 \<or> hd t = 43) then tl t else t)
      in case scan_digits body of (ds, r) \<Rightarrow>
           if ds = [] \<or> r \<noteq> [] then Inl ValueError
           else Inr (if neg then - int (digits_val ds) else int (digits_val ds)))"

text \<open>
  \<open>datetime.date(year, month, day)\<close>: an argument that does not fit a C \<open>int\<close> raises
  \<open>OverflowError\<close>, a date that does not exist raises \<open>ValueError\<close>.
\<close>

record date =
  d_year :: int
  d_month :: int
  d_day :: int

definition is_leap :: "int \<Rightarrow> bool" where
  "is_leap y \<longleftrightarrow> y mod 4 = 0 \<and> (y mod 400 = 0 \<or> y mod 100 \<noteq> 0)"

definition days_in_month :: "int \<Rightarrow> int \<Rightarrow> int" where
  "days_in_month y m =
     (if m = 2 then (if is_leap y then 29 else 28)
      else if m = 4 \<or> m = 6 \<or> m = 9 \<or> m = 11 then 30 else 31)"

definition c_int :: "int \<Rightarrow> bool" where
  "c_int n \<longleftrightarrow> - 2147483648 \<le> n \<and> n \<le> 2147483647"

definition py_date :: "int \<Rightarrow> int \<Rightarrow> int \<Rightarrow> py_error + date" where
  "py_date y m d =
     (if \<not> (c_int y \<and> c_int m \<and> c_int d) then Inl OverflowError
      else if y < 1 \<or> 9999 < y then Inl ValueError
      else if m < 1 \<or> 12 < m then Inl ValueError
      else if d < 1 \<or> days_in_month y m < d then Inl ValueError
      else Inr \<lparr>d_year = y, d_month = m, d_day = d\<rparr>)"

text \<open>Decimal digits of a natural number, and \<open>%04d\<close>, \<open>%02d\<close> on a non-negative integer.\<close>

fun str_nat :: "nat \<Rightarrow> pystr" where
  "str_nat n = (if n < 10 then [48 + n] else str_nat (n div 10) @ [48 + n mod 10])"

declare str_nat.simps [simp del]

definition zfill :: "nat \<Rightarrow> pystr \<Rightarrow> pystr" where
  "zfill w s = replicate (w - length s) 48 @ s"

definition isoformat :: "date \<Rightarrow> pystr" where
  "isoformat d = zfill 4 (str_nat (nat (d_year d))) @ [45] @ zfill 2 (str_nat (nat (d_month d)))
                   @ [45] @ zfill 2 (str_nat (nat (d_day d)))"

definition month_key :: "date \<Rightarrow> pystr" where
  "month_key d = zfill 4 (str_nat (nat (d_year d))) @ [45] @ zfill 2 (str_nat (nat (d_month d)))"

definition MONTHS_MAP :: "(pystr \<times> int) list" where
  "MONTHS_MAP =
     [(py ''jan'', 1), (py ''january'', 1), (py ''feb'', 2), (py ''february'', 2),
      (py ''mar'', 3), (py ''march'', 3), (py ''apr'', 4), (py ''april'', 4), (py ''may'', 5),
      (py ''jun'', 6), (py ''june'', 6), (py ''jul'', 7), (py ''july'', 7), (py ''aug'', 8),
      (py ''august'', 8), (py ''sep'', 9), (py ''sept'', 9), (py ''september'', 9),
      (py ''oct'', 10), (py ''october'', 10), (py ''nov'', 11), (py ''november'', 11),
      (py ''dec'', 12), (py ''december'', 12)]"

text \<open>
  \<open>parse_report_month\<close> catches the \<open>ValueError\<close> of \<open>int\<close> only: what
  \<open>dt.date(y, m, 1)\<close> raises leaves the function.
\<close>

definition parse_report_month :: "pystr \<Rightarrow> py_error + date option" where
  "parse_report_month s =
     (if s = [] then Inr None
      else case split (strip s) of
        [p0, p1] \<Rightarrow>
          (let m = map_of MONTHS_MAP (lower (strip p0)) in
           case py_int p1 of
             Inl e \<Rightarrow> Inr None
           | Inr y \<Rightarrow>
               (case m of
                  None \<Rightarrow> Inr None
                | Some mm \<Rightarrow>
                    (case py_date y mm 1 of Inl e \<Rightarrow> Inl e | Inr d \<Rightarrow> Inr (Some d))))
      | _ \<Rightarrow> Inr None)"

text \<open>
  \<open>parse_human_date\<close> catches the \<open>ValueError\<close> of \<open>dt.date(year, m, day)\<close> too; an
  \<open>OverflowError\<close> leaves it.
\<close>

definition parse_human_date :: "pystr \<Rightarrow> py_error + date option" where
  "parse_human_date s0 =
     (if s0 = [] then Inr None
      else let s = strip s0 in
        if s = [] then Inr None
        else case split (filter (\<lambda>c. c \<noteq> 44) s) of
          [p0, p1, p2] \<Rightarrow>
            (case py_int p0 of
               Inl e \<Rightarrow> Inr None
             | Inr dd \<Rightarrow>
                 (case map_of MONTHS_MAP (lower (strip p1)) of
                    None \<Rightarrow> Inr None
                  | Some m \<Rightarrow>
                      (case py_int p2 of
                         Inl e \<Rightarrow> Inr None
                       | Inr y \<Rightarrow>
                           (case py_date y m dd of
                              Inl ValueError \<Rightarrow> Inr None
                            | Inl e \<Rightarrow> Inl e
                            | Inr d \<Rightarrow> Inr (Some d)))))
        | _ \<Rightarrow> Inr None)"

section \<open>The publish date of a video\<close>

text \<open>
  \<open>dt.date.fromisoformat\<close> as the interpreter the script is written for (3.9) has it:
  exactly \<open>YYYY-MM-DD\<close>, and the date must exist; \<open>None\<close> stands for \<open>ValueError\<close>.
\<close>

definition date_shape :: "pystr \<Rightarrow> bool" where
  "date_shape s \<longleftrightarrow>
     length s = 10 \<and> list_all isdigit (take 4 s) \<and> s ! 4 = 45 \<and>
     list_all isdigit (take 2 (drop 5 s)) \<and> s ! 7 = 45 \<and> list_all isdigit (drop 8 s)"

definition date_fromisoformat :: "pystr \<Rightarrow> date option" where
  "date_fromisoformat s =
     (if date_shape s then
        (case py_date (int (digits_val (take 4 s))) (int (digits_val (take 2 (drop 5 s))))
                      (int (digits_val (drop 8 s))) of
           Inl e \<Rightarrow> None
         | Inr d \<Rightarrow> Some d)
      else None)"

text \<open>
  The five patterns of \<open>PUBLISH_DATE_REGEXES\<close> are sequences of a literal, \<open>\s*\<close>,
  \<open>\s+\<close> and the group \<open>(\d{4}-\d{2}-\d{2})\<close>. What follows a run of whitespace in them
  is never whitespace, so the greedy run needs no backtracking. \<open>rx_match\<close> matches a
  pattern at the start of a text and gives the group, \<open>rx_search\<close> the leftmost match.
\<close>

datatype tok = Lit pystr | Ws0 | Ws1 | DateGroup

fun rx_match :: "tok list \<Rightarrow> pystr \<Rightarrow> pystr option \<Rightarrow> pystr option" where
  "rx_match [] s g = g"
| "rx_match (Lit p # ts) s g =
     (if startswith s p then rx_match ts (drop (length p) s) g else None)"
| "rx_match (Ws0 # ts) s g = rx_match ts (dropWhile isspace s) g"
| "rx_match (Ws1 # ts) s g =
     (if s \<noteq> [] \<and> isspace (hd s) then rx_match ts (dropWhile isspace s) g else None)"
| "rx_match (DateGroup # ts) s g =
     (if date_shape (take 10 s) then rx_match ts (drop 10 s) (Some (take 10 s)) else None)"

fun rx_search :: "tok list \<Rightarrow> pystr \<Rightarrow> pystr option" where
  "rx_search ts [] = rx_match ts [] None"
| "rx_search ts (c # cs) =
     (case rx_match ts (c # cs) None of Some g \<Rightarrow> Some g | None \<Rightarrow> rx_search ts cs)"

definition PUBLISH_DATE_REGEXES :: "tok list list" where
  "PUBLISH_DATE_REGEXES =
     [[Lit (py ''\"publishDate\"''), Ws0, Lit (py '':''), Ws0, Lit (py ''\"''), DateGroup, Lit (py ''\"'')],
      [Lit (py ''\"uploadDate\"''), Ws0, Lit (py '':''), Ws0, Lit (py ''\"''), DateGroup, Lit (py ''\"'')],
      [Lit (py ''\"datePublished\"''), Ws0, Lit (py '':''), Ws0, Lit (py ''\"''), DateGroup, Lit (py ''\"'')],
      [Lit (py ''itemprop=\"datePublished\"''), Ws1, Lit (py ''content=\"''), DateGroup, Lit (py ''\"'')],
      [Lit (py ''itemprop=\"uploadDate\"''), Ws1, Lit (py ''content=\"''), DateGroup, Lit (py ''\"'')]]"

text \<open>
  The loop of \<open>extract_publish_date\<close>: a pattern whose first match is no real date is
  passed over (\<open>continue\<close>).
\<close>

fun extract_loop :: "tok list list \<Rightarrow> pystr \<Rightarrow> date option" where
  "extract_loop [] html = None"
| "extract_loop (rx # rxs) html =
     (case rx_search rx html of
        None \<Rightarrow> extract_loop rxs html
      | Some g \<Rightarrow>
          (case date_fromisoformat g of
             Some d \<Rightarrow> Some d
           | None \<Rightarrow> extract_loop rxs html))"

definition extract_publish_date :: "pystr \<Rightarrow> date option" where
  "extract_publish_date html = extract_loop PUBLISH_DATE_REGEXES html"

text \<open>
  The state that \<open>youtube_publish_date\<close> changes: the dictionary \<open>cache\<close>, and the
  list of the URLs that were handed to \<open>fetch_url_text\<close>, one entry for each download
  attempt.
\<close>

record ystate =
  cache :: "pystr \<rightharpoonup> pystr"
  fetches :: "pystr list"

text \<open>
  The fallback by the extraction tool: its output must be eight digits, and they must be
  a date; every exception in it is swallowed.
\<close>

definition ytdlp_date :: "env \<Rightarrow> pystr \<Rightarrow> date option" where
  "ytdlp_date E norm_url =
     (if ytdlp E then
        (case run_ytdlp E norm_url of
           None \<Rightarrow> None
         | Some stdout \<Rightarrow>
             (let out = strip stdout in
              if length out = 8 \<and> list_all isdigit out then
                (case py_date (int (digits_val (take 4 out))) (int (digits_val (take 2 (drop 4 out))))
                              (int (digits_val (take 2 (drop 6 out)))) of
                   Inl e \<Rightarrow> None
                 | Inr d \<Rightarrow> Some d)
              else None))
      else None)"

definition youtube_publish_date :: "env \<Rightarrow> pystr \<Rightarrow> ystate \<Rightarrow> date option \<times> ystate" where
  "youtube_publish_date E url st =
     (case normalize_youtube_url E url of
        None \<Rightarrow> (None, st)
      | Some norm_url \<Rightarrow>
          if norm_url = [] then (None, st)
          else
            (case (case cache st norm_url of None \<Rightarrow> None | Some v \<Rightarrow> date_fromisoformat v) of
               Some d \<Rightarrow> (Some d, st)
             | None \<Rightarrow>
                 (let html = (case fetch_url_text E norm_url of None \<Rightarrow> [] | Some h \<Rightarrow> h);
                      st1 = st\<lparr>fetches := fetches st @ [norm_url]\<rparr>
                  in case (if html \<noteq> [] then extract_publish_date html else None) of
                       Some d \<Rightarrow> (Some d, st1\<lparr>cache := (cache st1)(norm_url \<mapsto> isoformat d)\<rparr>)
                     | None \<Rightarrow>
                         (case ytdlp_date E norm_url of
                            Some d \<Rightarrow> (Some d, st1\<lparr>cache := (cache st1)(norm_url \<mapsto> isoformat d)\<rparr>)
                          | None \<Rightarrow> (None, st1\<lparr>cache := (cache st1)(norm_url \<mapsto> [])\<rparr>)))))"

section \<open>The date of a row\<close>

text \<open>
  The part of the loop body of \<open>main\<close> that settles \<open>d\<close> and \<open>date_source\<close>, from the
  stripped cells \<open>Channel\<close>, \<open>Link\<close>, \<open>Date\<close> and \<open>Report Month\<close>. An exception of one
  of the two parsers ends the run.
\<close>

definition resolve_date ::
  "env \<Rightarrow> pystr \<Rightarrow> pystr \<Rightarrow> pystr \<Rightarrow> pystr \<Rightarrow> ystate \<Rightarrow> py_error + ((date option \<times> pystr) \<times> ystate)" where
  "resolve_date E chan lnk date_text report_month_raw st =
     (case parse_human_date date_text of
        Inl e \<Rightarrow> Inl e
      | Inr (Some d) \<Rightarrow> Inr ((Some d, py ''provided''), st)
      | Inr None \<Rightarrow>
          (case (if lower chan = py ''youtube'' \<and> lnk \<noteq> []
                 then youtube_publish_date E lnk st else (None, st)) of
             (Some yd, st1) \<Rightarrow> Inr ((Some yd, py ''youtube_publish''), st1)
           | (None, st1) \<Rightarrow>
               (case parse_report_month report_month_raw of
                  Inl e \<Rightarrow> Inl e
                | Inr (Some rm) \<Rightarrow> Inr ((Some rm, py ''inferred_report_month''), st1)
                | Inr None \<Rightarrow> Inr ((None, py ''unknown''), st1))))"

definition date_iso_of :: "date option \<Rightarrow> pystr" where
  "date_iso_of d = (case d of None \<Rightarrow> [] | Some x \<Rightarrow> isoformat x)"

definition mkey_of :: "date option \<Rightarrow> pystr" where
  "mkey_of d = (case d of None \<Rightarrow> py ''_nodate'' | Some x \<Rightarrow> month_key x)"

definition empty_ystate :: ystate where
  "empty_ystate = \<lparr>cache = Map.empty, fetches = []\<rparr>"

section \<open>Numbers from text\<close>

text \<open>
  A Python \<open>float\<close> is an IEEE 754 binary64 number: \<open>Fin neg m e\<close> is the finite value
  \<open>\<plusminus> m * 2 ^ e\<close>. \<open>float(t)\<close> reads a decimal numeral and rounds it to the nearest
  such number, ties to even; the result has at most 53 significant bits, its exponent is
  at least -1074, and a numeral that rounds to 2^1024 or more gives infinity.
\<close>

datatype pydouble = Fin bool nat int | Infinity bool | NaN

fun bitlen :: "nat \<Rightarrow> nat" where
  "bitlen n = (if n = 0 then 0 else Suc (bitlen (n div 2)))"

declare bitlen.simps [simp del]

text \<open>The integer part of the binary logarithm of \<open>num / den\<close>, for positive arguments.\<close>

definition floor_log2 :: "nat \<Rightarrow> nat \<Rightarrow> int" where
  "floor_log2 num den =
     (let k = int (bitlen den) - int (bitlen num) in
      if (if 0 \<le> k then den \<le> num * 2 ^ nat k else den * 2 ^ nat (- k) \<le> num)
      then - k else - k - 1)"

definition round_half_even :: "nat \<Rightarrow> nat \<Rightarrow> nat" where
  "round_half_even n d =
     (let q = n div d; r = n mod d in
      if d < 2 * r then q + 1
      else if 2 * r < d then q
      else if even q then q else q + 1)"

definition to_double :: "bool \<Rightarrow> nat \<Rightarrow> nat \<Rightarrow> pydouble" where
  "to_double neg num den =
     (if num = 0 then Fin neg 0 0
      else let e = max (floor_log2 num den - 52) (- 1074);
               m = (if 0 \<le> e then round_half_even num (den * 2 ^ nat e)
                    else round_half_even (num * 2 ^ nat (- e)) den)
           in if 0 \<le> e \<and> 2 ^ 1024 \<le> m * 2 ^ nat e then Infinity neg else Fin neg m e)"

text \<open>The numeral with the digits \<open>ds\<close> and the decimal exponent \<open>ex\<close>.\<close>

definition decimal :: "bool \<Rightarrow> pystr \<Rightarrow> int \<Rightarrow> pydouble" where
  "decimal neg ds ex = to_double neg (digits_val ds * 10 ^ nat ex) (10 ^ nat (- ex))"

text \<open>
  \<open>float(t)\<close> on a string: whitespace around, a sign, then \<open>inf\<close>, \<open>infinity\<close> or \<open>nan\<close>
  in any letter case, or digits with an optional point and an optional exponent, where
  single underscores may stand between digits. It raises \<open>ValueError\<close> only.
\<close>

definition py_float :: "pystr \<Rightarrow> py_error + pydouble" where
  "py_float t =
     (let s = num_strip t;
          neg = (s \<noteq> [] \<and> hd s = 45);
          body = (if s \<noteq> [] \<and> (hd s = 45 \<or> hd s = 43) then tl s else s);
          lb = lower body
      in if lb = py ''inf'' \<or> lb = py ''infinity'' then Inr (Infinity neg)
         else if lb = py ''nan'' then Inr NaN
         else case scan_digits body of (ip, r1) \<Rightarrow>
           (case (if r1 \<noteq> [] \<and> hd r1 = 46 then scan_digits (tl r1) else ([], r1)) of (fp, r2) \<Rightarrow>
              if ip = [] \<and> fp = [] then Inl ValueError
              else if r2 = [] then Inr (decimal neg (ip @ fp) (- int (length fp)))
              else if hd r2 = 101 \<or> hd r2 = 69 then
                (let r3 = tl r2;
                     eneg = (r3 \<noteq> [] \<and> hd r3 = 45);
                     ebody = (if r3 \<noteq> [] \<and> (hd r3 = 45 \<or> hd r3 = 43) then tl r3 else r3)
                 in case scan_digits ebody of (ed, r4) \<Rightarrow>
                      if ed = [] \<or> r4 \<noteq> [] then Inl ValueError
                      else Inr (decimal neg (ip @ fp)
                             ((if eneg then - int (digits_val ed) else int (digits_val ed))
                                - int (length fp))))
              else Inl ValueError))"

text \<open>
  \<open>int(x)\<close> on a float truncates towards zero; it raises \<open>OverflowError\<close> on an infinity
  and \<open>ValueError\<close> on a NaN.
\<close>

definition int_of_double :: "pydouble \<Rightarrow> py_error + int" where
  "int_of_double x =
     (case x of
        Fin neg m e \<Rightarrow>
          (let a = (if 0 \<le> e then m * 2 ^ nat e else m div 2 ^ nat (- e))
           in Inr (if neg then - int a else int a))
      | Infinity neg \<Rightarrow> Inl OverflowError
      | NaN \<Rightarrow> Inl ValueError)"

text \<open>
  The argument of \<open>parse_int\<close> is a cell of the CSV row (a string, or \<open>None\<close> for a
  missing column) or an integer. Only \<open>ValueError\<close> is caught.
\<close>

datatype pyval = NoneV | IntV int | StrV pystr

definition parse_int :: "pyval \<Rightarrow> py_error + int option" where
  "parse_int s =
     (case s of
        NoneV \<Rightarrow> Inr None
      | IntV n \<Rightarrow> Inr (Some n)
      | StrV u \<Rightarrow>
          (let t = strip u in
           if t = [] \<or> t = [8212] then Inr None
           else case py_float (filter (\<lambda>c. c \<noteq> 44) t) of
                  Inl ValueError \<Rightarrow> Inr None
                | Inl e \<Rightarrow> Inl e
                | Inr x \<Rightarrow>
                    (case int_of_double x of
                       Inl ValueError \<Rightarrow> Inr None
                     | Inl e \<Rightarrow> Inl e
                     | Inr n \<Rightarrow> Inr (Some n))))"

text \<open>\<open>str(n)\<close> on an integer.\<close>

definition str_int :: "int \<Rightarrow> pystr" where
  "str_int n = (if n < 0 then 45 # str_nat (nat (- n)) else str_nat (nat n))"

section \<open>Properties of the identity key\<close>

lemmas str_defs = py_def strip_def lstrip_def rstrip_def isspace_def lower_def lower_char_def

lemma norm_link_of_empty_iff: "norm_link_of E it = [] \<longleftrightarrow> strip (link it) = []"
  by (auto simp: norm_link_of_def Let_def split: option.splits)

text \<open>
  C6, as the code has it. The date is appended to the key only when the link is empty, and
  then when the title is empty too or the channel is LinkedIn or Instagram (in any letter
  case); a LinkedIn or Instagram record with a link has the four-component key, as every
  other record has. So two records outside the five-component cases with the same
  (channel, type, title, normalized link) have the same key.
\<close>

theorem dedup_key_cases:
  "dedup_key E it =
     (if strip (link it) = [] \<and>
         (strip (title it) = [] \<or> lower (strip (channel it)) = py ''linkedin''
            \<or> lower (strip (channel it)) = py ''instagram'')
      then [strip (channel it), strip (dtype it), strip (title it), [], date_iso it]
      else [strip (channel it), strip (dtype it), strip (title it), norm_link_of E it])"
  using norm_link_of_empty_iff [of E it] by (auto simp: dedup_key_def Let_def)

theorem dedup_key_cases_witness:
  "dedup_key offline_env (mk_item ''Instagram'' ''Reel'' ''Spring launch'' '''' '''' ''2025-04-01'' ''2025-04'' ''inferred_report_month'' None)
     = [py ''Instagram'', py ''Reel'', py ''Spring launch'', [], py ''2025-04-01'']"
  using dedup_key_cases [of offline_env "mk_item ''Instagram'' ''Reel'' ''Spring launch'' '''' '''' ''2025-04-01'' ''2025-04'' ''inferred_report_month'' None"]
  by (simp add: mk_item_def str_defs)

text \<open>
  C6 as stated fails: a LinkedIn record with a link gets a key without its date.
\<close>

theorem dedup_key_linkedin_counterexample:
  "lower (strip (channel (mk_item ''LinkedIn'' ''Post'' ''Quarterly update'' ''https://lnkd.in/abc'' '''' ''2025-04-01'' ''2025-04'' ''inferred_report_month'' None))) = py ''linkedin'' \<and>
   dedup_key offline_env (mk_item ''LinkedIn'' ''Post'' ''Quarterly update'' ''https://lnkd.in/abc'' '''' ''2025-04-01'' ''2025-04'' ''inferred_report_month'' None)
     = [py ''LinkedIn'', py ''Post'', py ''Quarterly update'', py ''https://lnkd.in/abc'']"
  by (simp add: dedup_key_def norm_link_of_def mk_item_def str_defs)

section \<open>The map of merged records\<close>


lemma dict_set_keys: "fst ` set (dict_set k v m) = insert k (fst ` set m)"
proof (induction m)
  case Nil
  show ?case by simp
next
  case (Cons a m)
  obtain k' v' where "a = (k', v')" by (cases a)
  with Cons show ?case by (cases "k' = k") (simp_all add: insert_commute)
qed

lemma dict_set_distinct: "distinct (map fst m) \<Longrightarrow> distinct (map fst (dict_set k v m))"
proof (induction m)
  case Nil then show ?case by simp
next
  case (Cons a m)
  then show ?case using dict_set_keys [of k v m] by (cases a) (auto simp: image_iff)
qed

lemma add_item_keys: "fst ` set (add_item E m new) = insert (dedup_key E new) (fst ` set m)"
  by (simp add: add_item_def Let_def dict_set_keys split: option.splits)

lemma add_item_distinct: "distinct (map fst m) \<Longrightarrow> distinct (map fst (add_item E m new))"
  by (simp add: add_item_def Let_def dict_set_distinct split: option.splits)

lemma foldl_add_item_keys:
  "fst ` set (foldl (add_item E) m rows) = fst ` set m \<union> dedup_key E ` set rows"
  by (induction rows arbitrary: m) (auto simp: add_item_keys)

lemma foldl_add_item_distinct:
  "distinct (map fst m) \<Longrightarrow> distinct (map fst (foldl (add_item E) m rows))"
  by (induction rows arbitrary: m) (auto simp: add_item_distinct)

lemma merge_all_keys: "fst ` set (merge_all E rows) = dedup_key E ` set rows"
  by (simp add: merge_all_def foldl_add_item_keys)

lemma merge_all_distinct: "distinct (map fst (merge_all E rows))"
  by (simp add: merge_all_def foldl_add_item_distinct)

lemma distinct_filter_key_one:
  "distinct (map fst m) \<Longrightarrow> k \<in> fst ` set m \<Longrightarrow> length (filter (\<lambda>(k', v). k' = k) m) = 1"
proof (induction m)
  case Nil then show ?case by simp
next
  case (Cons a m)
  obtain k' v' where a: "a = (k', v')" by (cases a)
  show ?case
  proof (cases "k' = k")
    case True
    with Cons.prems a have "k \<notin> fst ` set m" by (auto simp: image_iff)
    then have "filter (\<lambda>(k', v). k' = k) m = []" by (auto simp: filter_empty_conv image_iff)
    with True a show ?thesis by simp
  next
    case False
    with Cons a show ?thesis by auto
  qed
qed

text \<open>
  C10, as the code has it. A record with an empty title, an empty link and no resolved date
  has the key (channel, type, "", "", ""), and after the first pass over any rows that
  contain such a record the map holds exactly one record under that key: all such records
  of one channel and type have merged into one.
\<close>

theorem merge_all_no_title_no_link:
  assumes "strip (title a) = []" and "strip (link a) = []" and "date_iso a = []"
    and "a \<in> set rows"
  shows "dedup_key E a = [strip (channel a), strip (dtype a), [], [], []] \<and>
         length (filter (\<lambda>(k, v). k = [strip (channel a), strip (dtype a), [], [], []]) (merge_all E rows)) = 1"
proof -
  have nl: "norm_link_of E a = []" using assms(2) by (simp add: norm_link_of_empty_iff)
  have k: "dedup_key E a = [strip (channel a), strip (dtype a), [], [], []]"
    using assms(1,3) nl by (simp add: dedup_key_def Let_def)
  have "dedup_key E a \<in> fst ` set (merge_all E rows)"
    using assms(4) by (simp add: merge_all_keys)
  then have "length (filter (\<lambda>(k, v). k = dedup_key E a) (merge_all E rows)) = 1"
    using merge_all_distinct by (rule distinct_filter_key_one [rotated])
  with k show ?thesis by simp
qed



theorem merge_all_no_title_no_link_witness:
  "dedup_key offline_env (mk_item ''FHC'' ''Webinar'' '''' '''' '''' '''' ''_nodate'' ''unknown'' (Some 75))
      = [py ''FHC'', py ''Webinar'', [], [], []] \<and>
   length (filter (\<lambda>(k, v). k = [py ''FHC'', py ''Webinar'', [], [], []])
     (merge_all offline_env [mk_item ''FHC'' ''Webinar'' '''' '''' ''TBD'' '''' ''_nodate'' ''unknown'' (Some 40),
                             mk_item ''FHC'' ''Webinar'' '''' '''' '''' '''' ''_nodate'' ''unknown'' (Some 75)])) = 1"
  using merge_all_no_title_no_link [of "mk_item ''FHC'' ''Webinar'' '''' '''' '''' '''' ''_nodate'' ''unknown'' (Some 75)"
     "[mk_item ''FHC'' ''Webinar'' '''' '''' ''TBD'' '''' ''_nodate'' ''unknown'' (Some 40),
       mk_item ''FHC'' ''Webinar'' '''' '''' '''' '''' ''_nodate'' ''unknown'' (Some 75)]" offline_env]
  by (simp add: mk_item_def str_defs)

text \<open>
  C10 as stated fails for a link that is not empty but cannot be normalized: the link
  stays in the key as it is, and the key has no date component.
\<close>

theorem dedup_key_unnormalizable_link_counterexample:
  "normalize_youtube_url offline_env (py ''TBD'') = None \<and>
   dedup_key offline_env (mk_item ''YouTube'' ''Video'' '''' ''TBD'' '''' '''' ''_nodate'' ''unknown'' None)
     = [py ''YouTube'', py ''Video'', [], py ''TBD'']"
  by (simp add: dedup_key_def norm_link_of_def normalize_youtube_url_def offline_env_def
        YOUTUBE_ID_RE_def STUDIO_ID_RE_def startswith_def idchar_def mk_item_def str_defs)


section \<open>The merge rule\<close>


lemma map_of_dict_set_same: "map_of (dict_set k v m) k = Some v"
  by (induction m) auto

lemma map_of_dict_set_other: "k' \<noteq> k \<Longrightarrow> map_of (dict_set k v m) k' = map_of m k'"
  by (induction m) auto

text \<open>
  C2, as the code has it. When the new record meets a stored record under its key and has
  the strictly higher tier: if the stored impressions (none counted as 0) exceed ten times
  the new ones and exceed 100, the stored record stays with its metrics, and takes the ISO
  date, month and tier of the new record, and its date text unless that is empty (then
  the stored date text stays); otherwise the new record replaces the stored one. A record
  of a tier above "unknown" always has an ISO date and a month (\<open>resolve_date_tier\<close>
  below).
\<close>

theorem add_item_higher_tier:
  assumes "map_of m (dedup_key E new) = Some prev"
    and "priority (date_source new) > priority (date_source prev)"
    and "date_iso new \<noteq> []" and "month new \<noteq> []"
  shows "map_of (add_item E m new) (dedup_key E new) =
           Some (if or0 (impressions prev) > or0 (impressions new) * 10 \<and> or0 (impressions prev) > 100
                 then prev\<lparr>date_raw := (if date_raw new \<noteq> [] then date_raw new else date_raw prev),
                           date_iso := date_iso new, month := month new,
                           date_source := date_source new\<rparr>
                 else new)"
  using assms
  by (simp add: add_item_def Let_def map_of_dict_set_same merge_def graft_def str_or_def)

lemmas item_defs = mk_item_def priority_def DATE_PRIORITY_def or0_def

theorem add_item_higher_tier_witness:
  "map_of (add_item offline_env
       [([py ''Podcast'', py ''Episode'', py ''Budget basics'', []],
         mk_item ''Podcast'' ''Episode'' ''Budget basics'' '''' '''' ''2025-07-01'' ''2025-07'' ''inferred_report_month'' (Some 5000))]
       (mk_item ''Podcast'' ''Episode'' ''Budget basics'' '''' ''9 Apr 2025'' ''2025-04-09'' ''2025-04'' ''provided'' (Some 10)))
     [py ''Podcast'', py ''Episode'', py ''Budget basics'', []]
   = Some (mk_item ''Podcast'' ''Episode'' ''Budget basics'' '''' ''9 Apr 2025'' ''2025-04-09'' ''2025-04'' ''provided'' (Some 5000))"
proof -
  have k: "dedup_key offline_env (mk_item ''Podcast'' ''Episode'' ''Budget basics'' '''' ''9 Apr 2025'' ''2025-04-09'' ''2025-04'' ''provided'' (Some 10))
      = [py ''Podcast'', py ''Episode'', py ''Budget basics'', []]"
    by (simp add: dedup_key_def norm_link_of_def mk_item_def str_defs)
  show ?thesis
    using add_item_higher_tier [of
       "[([py ''Podcast'', py ''Episode'', py ''Budget basics'', []],
         mk_item ''Podcast'' ''Episode'' ''Budget basics'' '''' '''' ''2025-07-01'' ''2025-07'' ''inferred_report_month'' (Some 5000))]"
       offline_env
       "mk_item ''Podcast'' ''Episode'' ''Budget basics'' '''' ''9 Apr 2025'' ''2025-04-09'' ''2025-04'' ''provided'' (Some 10)"
       "mk_item ''Podcast'' ''Episode'' ''Budget basics'' '''' '''' ''2025-07-01'' ''2025-07'' ''inferred_report_month'' (Some 5000)"]
    unfolding k
    by (simp add: item_defs py_def)
qed

text \<open>
  C2 as stated fails on the date text: a new record whose date was inferred from the
  reporting period has an empty date text, and the stored record keeps its own.
\<close>

theorem merge_date_text_counterexample:
  "priority (date_source (mk_item ''Podcast'' ''Episode'' ''Budget basics'' '''' '''' ''2025-07-01'' ''2025-07'' ''inferred_report_month'' (Some 10)))
     > priority (date_source (mk_item ''Podcast'' ''Episode'' ''Budget basics'' '''' ''April 2025'' '''' ''_nodate'' ''unknown'' (Some 5000))) \<and>
   merge (mk_item ''Podcast'' ''Episode'' ''Budget basics'' '''' ''April 2025'' '''' ''_nodate'' ''unknown'' (Some 5000))
         (mk_item ''Podcast'' ''Episode'' ''Budget basics'' '''' '''' ''2025-07-01'' ''2025-07'' ''inferred_report_month'' (Some 10))
     = mk_item ''Podcast'' ''Episode'' ''Budget basics'' '''' ''April 2025'' ''2025-07-01'' ''2025-07'' ''inferred_report_month'' (Some 5000) \<and>
   date_raw (mk_item ''Podcast'' ''Episode'' ''Budget basics'' '''' '''' ''2025-07-01'' ''2025-07'' ''inferred_report_month'' (Some 10)) = []"
  by (simp add: merge_def graft_def str_or_def item_defs py_def)


section \<open>The second pass\<close>


lemma match_step_result:
  "match_step rem it ch ct best (mk', mit') = Some (mk, mit) \<Longrightarrow>
     best = Some (mk, mit) \<or>
     ((mk, mit) = (mk', mit') \<and> mk \<notin> rem \<and> lower (strip (channel mit)) = ch \<and>
       8 \<le> length (clean_title (title mit)) \<and> 8 \<le> length ct \<and>
      take (min (min (length ct) (length (clean_title (title mit)))) 10) ct
        = take (min (min (length ct) (length (clean_title (title mit)))) 10) (clean_title (title mit)))"
  by (auto simp: match_step_def Let_def split: if_splits option.splits prod.splits)

lemma foldl_match_step_result:
  "foldl (match_step rem it ch ct) best ds = Some (mk, mit) \<Longrightarrow>
     best = Some (mk, mit) \<or>
     ((mk, mit) \<in> set ds \<and> mk \<notin> rem \<and> lower (strip (channel mit)) = ch \<and>
      8 \<le> length (clean_title (title mit)) \<and> 8 \<le> length ct \<and>
      take (min (min (length ct) (length (clean_title (title mit)))) 10) ct
        = take (min (min (length ct) (length (clean_title (title mit)))) 10) (clean_title (title mit)))"
proof (induction ds arbitrary: best)
  case Nil
  then show ?case by simp
next
  case (Cons a ds)
  obtain mk' mit' where a: "a = (mk', mit')" by (cases a)
  from Cons.prems a have "foldl (match_step rem it ch ct) (match_step rem it ch ct best (mk', mit')) ds = Some (mk, mit)"
    by simp
  from Cons.IH [OF this] show ?case
  proof
    assume "match_step rem it ch ct best (mk', mit') = Some (mk, mit)"
    from match_step_result [OF this] a show ?thesis by auto
  next
    assume "(mk, mit) \<in> set ds \<and> mk \<notin> rem \<and> lower (strip (channel mit)) = ch \<and>
      8 \<le> length (clean_title (title mit)) \<and> 8 \<le> length ct \<and>
      take (min (min (length ct) (length (clean_title (title mit)))) 10) ct
        = take (min (min (length ct) (length (clean_title (title mit)))) 10) (clean_title (title mit))"
    then show ?thesis by simp
  qed
qed

lemma find_best_result:
  "find_best rem it ch ct ds = Some (mk, mit) \<Longrightarrow>
     (mk, mit) \<in> set ds \<and> mk \<notin> rem \<and> lower (strip (channel mit)) = ch \<and>
      8 \<le> length (clean_title (title mit)) \<and> 8 \<le> length ct \<and>
      take (min (min (length ct) (length (clean_title (title mit)))) 10) ct
        = take (min (min (length ct) (length (clean_title (title mit)))) 10) (clean_title (title mit))"
  unfolding find_best_def using foldl_match_step_result [of rem it ch ct None ds mk mit] by simp

lemma dated_items_source:
  "(mk, mit) \<in> set (dated_items m) \<Longrightarrow>
     (mk, mit) \<in> set m \<and> (date_source mit = py ''provided'' \<or> date_source mit = py ''youtube_publish'')"
  by (auto simp: dated_items_def)

lemma reconcile_step_cases:
  "reconcile_step dated (k, it) (m, rem) =
     (if k \<notin> rem \<and> date_source it = py ''inferred_report_month'' \<and> strip (title it) \<noteq> [] then
        (case find_best rem it (lower (strip (channel it))) (clean_title (strip (title it))) dated of
           None \<Rightarrow> (m, rem)
         | Some (mk, mit) \<Rightarrow>
             if or0 (impressions it) \<ge> or0 (impressions mit)
             then (dict_set k (adopt it mit) m, insert mk rem)
             else (m, insert k rem))
      else (m, rem))"
  by (simp add: reconcile_step_def Let_def split: option.splits prod.splits)

text \<open>
  C4, as the code has it. An iteration of the second pass changes the map or the set of keys
  to remove only for a record whose date was inferred from the reporting period and for
  which there is a record of the map with tier "provided" or "youtube_publish", of the same
  channel up to letter case and surrounding whitespace, such that both cleaned titles have
  at least 8 characters and agree on their first n characters, where n is the length of the
  shorter cleaned title when that is 8 or 9 and 10 otherwise. The change is then the
  merge of exactly this pair.
\<close>

theorem reconcile_step_merges_only_matches:
  assumes "reconcile_step (dated_items m0) (k, it) (m, rem) \<noteq> (m, rem)"
  shows "date_source it = py ''inferred_report_month'' \<and>
     (\<exists>mk mit. (mk, mit) \<in> set m0 \<and>
        (date_source mit = py ''provided'' \<or> date_source mit = py ''youtube_publish'') \<and>
        lower (strip (channel mit)) = lower (strip (channel it)) \<and>
        8 \<le> length (clean_title (title mit)) \<and> 8 \<le> length (clean_title (strip (title it))) \<and>
        take (min (min (length (clean_title (strip (title it)))) (length (clean_title (title mit)))) 10)
             (clean_title (strip (title it)))
          = take (min (min (length (clean_title (strip (title it)))) (length (clean_title (title mit)))) 10)
             (clean_title (title mit)) \<and>
        reconcile_step (dated_items m0) (k, it) (m, rem) =
          (if or0 (impressions it) \<ge> or0 (impressions mit)
           then (dict_set k (adopt it mit) m, insert mk rem) else (m, insert k rem)))"
proof -
  let ?ch = "lower (strip (channel it))" and ?ct = "clean_title (strip (title it))"
  from assms have c: "k \<notin> rem" "date_source it = py ''inferred_report_month''" "strip (title it) \<noteq> []"
    by (auto simp: reconcile_step_cases split: if_splits)
  with assms obtain mk mit where fb: "find_best rem it ?ch ?ct (dated_items m0) = Some (mk, mit)"
    by (cases "find_best rem it ?ch ?ct (dated_items m0)") (auto simp: reconcile_step_cases)
  from find_best_result [OF fb] dated_items_source [of mk mit m0]
  have "(mk, mit) \<in> set m0" "date_source mit = py ''provided'' \<or> date_source mit = py ''youtube_publish''"
    "lower (strip (channel mit)) = ?ch" "8 \<le> length (clean_title (title mit))" "8 \<le> length ?ct"
    "take (min (min (length ?ct) (length (clean_title (title mit)))) 10) ?ct
      = take (min (min (length ?ct) (length (clean_title (title mit)))) 10) (clean_title (title mit))"
    by auto
  moreover have "reconcile_step (dated_items m0) (k, it) (m, rem) =
          (if or0 (impressions it) \<ge> or0 (impressions mit)
           then (dict_set k (adopt it mit) m, insert mk rem) else (m, insert k rem))"
    using c fb by (simp add: reconcile_step_cases)
  ultimately show ?thesis using c(2) by blast
qed

lemma reconcile_step_rem_mono: "rem \<subseteq> snd (reconcile_step dated kit (m, rem))"
  by (cases kit) (auto simp: reconcile_step_cases split: option.splits)

lemma reconcile_step_rem_bound:
  "snd (reconcile_step dated (k, it) (m, rem)) \<subseteq> rem \<union> {k} \<union> fst ` set dated"
  using find_best_result [of rem it "lower (strip (channel it))" "clean_title (strip (title it))" dated]
  by (auto simp: reconcile_step_cases image_iff split: option.splits) force

lemma reconcile_step_map_other:
  "k' \<noteq> k \<Longrightarrow> map_of (fst (reconcile_step dated (k, it) (m, rem))) k' = map_of m k'"
  by (auto simp: reconcile_step_cases map_of_dict_set_other split: option.splits)

lemma reconcile_loop_rem_mono: "rem \<subseteq> snd (reconcile_loop dated xs (m, rem))"
proof (induction xs arbitrary: m rem)
  case Nil
  show ?case by (simp add: reconcile_loop_def)
next
  case (Cons x xs)
  obtain m' rem' where s: "reconcile_step dated x (m, rem) = (m', rem')" by (cases "reconcile_step dated x (m, rem)")
  have "rem \<subseteq> rem'" using reconcile_step_rem_mono [of rem dated x m] s by simp
  moreover have "rem' \<subseteq> snd (reconcile_loop dated xs (m', rem'))" by (rule Cons.IH)
  ultimately show ?case using s by (auto simp: reconcile_loop_def)
qed

lemma reconcile_loop_rem_bound:
  "snd (reconcile_loop dated xs (m, rem)) \<subseteq> rem \<union> fst ` set xs \<union> fst ` set dated"
proof (induction xs arbitrary: m rem)
  case Nil
  show ?case by (simp add: reconcile_loop_def)
next
  case (Cons x xs)
  obtain k it where x: "x = (k, it)" by (cases x)
  obtain m' rem' where s: "reconcile_step dated (k, it) (m, rem) = (m', rem')"
    by (cases "reconcile_step dated (k, it) (m, rem)")
  have "rem' \<subseteq> rem \<union> {k} \<union> fst ` set dated"
    using reconcile_step_rem_bound [of dated k it m rem] s by simp
  moreover have "snd (reconcile_loop dated xs (m', rem')) \<subseteq> rem' \<union> fst ` set xs \<union> fst ` set dated"
    by (rule Cons.IH)
  ultimately show ?case using s x by (auto simp: reconcile_loop_def)
qed

lemma reconcile_loop_map_other:
  "k' \<notin> fst ` set xs \<Longrightarrow> map_of (fst (reconcile_loop dated xs (m, rem))) k' = map_of m k'"
proof (induction xs arbitrary: m rem)
  case Nil
  show ?case by (simp add: reconcile_loop_def)
next
  case (Cons x xs)
  obtain k it where x: "x = (k, it)" by (cases x)
  obtain m' rem' where s: "reconcile_step dated (k, it) (m, rem) = (m', rem')"
    by (cases "reconcile_step dated (k, it) (m, rem)")
  from Cons.prems x have ne: "k' \<noteq> k" and nin: "k' \<notin> fst ` set xs" by auto
  have "map_of m' k' = map_of m k'"
    using reconcile_step_map_other [OF ne, of dated it m rem] s by simp
  moreover have "map_of (fst (reconcile_loop dated xs (m', rem'))) k' = map_of m' k'"
    using nin by (rule Cons.IH)
  ultimately show ?case using s x by (simp add: reconcile_loop_def)
qed

lemma reconcile_loop_append:
  "reconcile_loop dated (xs @ ys) s = reconcile_loop dated ys (reconcile_loop dated xs s)"
  by (simp add: reconcile_loop_def)

lemma reconcile_loop_Cons:
  "reconcile_loop dated (x # xs) s = reconcile_loop dated xs (reconcile_step dated x s)"
  by (simp add: reconcile_loop_def)

lemma map_of_filter_keys:
  "map_of (filter (\<lambda>(k, v). k \<notin> R) m) k = (if k \<in> R then None else map_of m k)"
  by (induction m) auto


text \<open>
  C3. Let the second pass, run on a map with distinct keys, reach an inferred-from-period
  record \<open>it\<close> under key \<open>k\<close> and find for it the candidate \<open>mit\<close> under key \<open>mk\<close>. If
  the impressions of \<open>it\<close> (none counted as 0) are at least those of the candidate, the
  result of the pass holds under \<open>k\<close> the record \<open>it\<close> with the candidate's
  \<open>date_iso\<close>, \<open>date_raw\<close> and \<open>month\<close>, with \<open>date_source\<close> "matched_" followed by
  the candidate's, and with the candidate's link if its own is empty, and holds nothing
  under \<open>mk\<close>; otherwise it holds nothing under \<open>k\<close>.
\<close>

theorem reconcile_matched_record:
  assumes dist: "distinct (map fst m)" and split: "m = pre @ (k, it) # post"
    and pre: "reconcile_loop (dated_items m) pre (m, {}) = (m1, rem1)"
    and inf: "date_source it = py ''inferred_report_month''" and ti: "strip (title it) \<noteq> []"
    and fb: "find_best rem1 it (lower (strip (channel it))) (clean_title (strip (title it))) (dated_items m) = Some (mk, mit)"
  shows "(or0 (impressions it) \<ge> or0 (impressions mit) \<longrightarrow>
            map_of (reconcile m) k =
              Some (it\<lparr>date_iso := date_iso mit, date_raw := date_raw mit, month := month mit,
                       date_source := py ''matched_'' @ date_source mit,
                       link := (if link mit \<noteq> [] \<and> link it = [] then link mit else link it)\<rparr>) \<and>
            map_of (reconcile m) mk = None) \<and>
         (or0 (impressions it) < or0 (impressions mit) \<longrightarrow> map_of (reconcile m) k = None)"
proof -
  let ?D = "dated_items m"
  have k_pre: "k \<notin> fst ` set pre" and k_post: "k \<notin> fst ` set post"
    using dist split by (auto simp: image_iff)
  have k_dated: "k \<notin> fst ` set ?D"
  proof
    assume "k \<in> fst ` set ?D"
    then obtain x where x: "(k, x) \<in> set ?D" by (auto simp: image_iff)
    then have xm: "(k, x) \<in> set m" and xs: "date_source x = py ''provided'' \<or> date_source x = py ''youtube_publish''"
      using dated_items_source [of k x m] by auto
    have "(k, it) \<in> set m" using split by simp
    with xm dist have "x = it" by (meson eq_key_imp_eq_value)
    with xs inf show False by (auto simp: py_def)
  qed
  have "rem1 \<subseteq> {} \<union> fst ` set pre \<union> fst ` set ?D"
    using reconcile_loop_rem_bound [of ?D pre m "{}"] pre by simp
  with k_pre k_dated have k_rem1: "k \<notin> rem1" by auto
  have mk_dated: "mk \<in> fst ` set ?D" using find_best_result [OF fb] by (auto simp: image_iff intro: rev_bexI)
  with k_dated have mk_k: "mk \<noteq> k" by auto
  obtain m2 rem2 where fin: "reconcile_loop ?D m (m, {}) = (m2, rem2)"
    by (cases "reconcile_loop ?D m (m, {})")
  have rec: "reconcile m = filter (\<lambda>(k, it). k \<notin> rem2) m2"
    using fin by (simp add: reconcile_def)
  have step: "reconcile_step ?D (k, it) (m1, rem1) =
      (if or0 (impressions it) \<ge> or0 (impressions mit)
       then (dict_set k (adopt it mit) m1, insert mk rem1) else (m1, insert k rem1))"
    using k_rem1 inf ti fb by (simp add: reconcile_step_cases)
  have loop: "reconcile_loop ?D m (m, {}) = reconcile_loop ?D post (reconcile_step ?D (k, it) (m1, rem1))"
    using pre by (simp add: split reconcile_loop_append reconcile_loop_Cons)
  show ?thesis
  proof (cases "or0 (impressions it) \<ge> or0 (impressions mit)")
    case True
    let ?m' = "dict_set k (adopt it mit) m1" and ?r' = "insert mk rem1"
    from True step loop fin have f: "reconcile_loop ?D post (?m', ?r') = (m2, rem2)" by simp
    have "map_of m2 k = map_of ?m' k"
      using reconcile_loop_map_other [OF k_post, of ?D ?m' ?r'] f by simp
    then have a: "map_of m2 k = Some (adopt it mit)" by (simp add: map_of_dict_set_same)
    have "rem2 \<subseteq> ?r' \<union> fst ` set post \<union> fst ` set ?D"
      using reconcile_loop_rem_bound [of ?D post ?m' ?r'] f by simp
    with k_rem1 mk_k k_post k_dated have b: "k \<notin> rem2" by auto
    have "?r' \<subseteq> rem2" using reconcile_loop_rem_mono [of ?r' ?D post ?m'] f by simp
    then have c: "mk \<in> rem2" by auto
    from a b c True show ?thesis by (simp add: rec map_of_filter_keys adopt_def)
  next
    case False
    from False step loop fin have f: "reconcile_loop ?D post (m1, insert k rem1) = (m2, rem2)" by simp
    have "insert k rem1 \<subseteq> rem2" using reconcile_loop_rem_mono [of "insert k rem1" ?D post m1] f by simp
    then have "k \<in> rem2" by auto
    with False show ?thesis by (simp add: rec map_of_filter_keys)
  qed
qed


lemmas reconcile_defs = reconcile_def reconcile_loop_def reconcile_step_cases find_best_def
  match_step_def dated_items_def clean_title_def rstrip_dots_def adopt_def

lemma ex_keys:
  "dedup_key offline_env recap_item = [py ''LinkedIn'', py ''Post'', py ''Quarterly Budget Planning Webinar Recap'', [], py ''2025-07-01'']"
  "dedup_key offline_env webinar_item = [py ''LinkedIn'', py ''Post'', py ''Quarterly Budget Planning Webinar'', [], py ''2025-04-09'']"
  "dedup_key offline_env short_item = [py ''linkedin'', py ''Post'', py ''Q3 recap'', [], py ''2025-07-01'']"
  "dedup_key offline_env long_item = [py ''LinkedIn'', py ''Post'', py ''Q3 recap and outlook'', [], py ''2025-04-09'']"
  by (simp_all add: dedup_key_def norm_link_of_def recap_item_def webinar_item_def short_item_def long_item_def mk_item_def str_defs)

theorem reconcile_matched_record_witness:
  "or0 (impressions recap_item) \<ge> or0 (impressions webinar_item) \<and>
   map_of (reconcile [(dedup_key offline_env recap_item, recap_item), (dedup_key offline_env webinar_item, webinar_item)])
       (dedup_key offline_env recap_item)
     = Some (mk_item ''LinkedIn'' ''Post'' ''Quarterly Budget Planning Webinar Recap'' ''''
          ''9 Apr 2025'' ''2025-04-09'' ''2025-04'' ''matched_provided'' (Some 50)) \<and>
   map_of (reconcile [(dedup_key offline_env recap_item, recap_item), (dedup_key offline_env webinar_item, webinar_item)])
       (dedup_key offline_env webinar_item) = None"
proof -
  let ?m = "[(dedup_key offline_env recap_item, recap_item), (dedup_key offline_env webinar_item, webinar_item)]"
  have 1: "distinct (map fst ?m)" by (simp add: ex_keys py_def)
  have 2: "?m = [] @ (dedup_key offline_env recap_item, recap_item) # [(dedup_key offline_env webinar_item, webinar_item)]"
    by simp
  have 3: "reconcile_loop (dated_items ?m) [] (?m, {}) = (?m, {})" by (simp add: reconcile_loop_def)
  have 4: "date_source recap_item = py ''inferred_report_month''" by (simp add: recap_item_def mk_item_def)
  have 5: "strip (title recap_item) \<noteq> []" by (simp add: recap_item_def mk_item_def str_defs)
  have 6: "find_best {} recap_item (lower (strip (channel recap_item))) (clean_title (strip (title recap_item)))
     (dated_items ?m) = Some (dedup_key offline_env webinar_item, webinar_item)"
    by (simp add: ex_keys reconcile_defs recap_item_def webinar_item_def item_defs str_defs)
  have 7: "or0 (impressions recap_item) \<ge> or0 (impressions webinar_item)"
    by (simp add: recap_item_def webinar_item_def item_defs)
  have 8: "recap_item\<lparr>date_iso := date_iso webinar_item, date_raw := date_raw webinar_item,
        month := month webinar_item, date_source := py ''matched_'' @ date_source webinar_item,
        link := (if link webinar_item \<noteq> [] \<and> link recap_item = [] then link webinar_item else link recap_item)\<rparr>
      = mk_item ''LinkedIn'' ''Post'' ''Quarterly Budget Planning Webinar Recap'' ''''
          ''9 Apr 2025'' ''2025-04-09'' ''2025-04'' ''matched_provided'' (Some 50)"
    by (simp add: recap_item_def webinar_item_def mk_item_def py_def)
  from reconcile_matched_record [OF 1 2 3 4 5 6] 7 8 show ?thesis by simp
qed

theorem reconcile_step_merges_only_matches_witness:
  "reconcile_step (dated_items [(dedup_key offline_env recap_item, recap_item), (dedup_key offline_env webinar_item, webinar_item)])
      (dedup_key offline_env recap_item, recap_item)
      ([(dedup_key offline_env recap_item, recap_item), (dedup_key offline_env webinar_item, webinar_item)], {})
    \<noteq> ([(dedup_key offline_env recap_item, recap_item), (dedup_key offline_env webinar_item, webinar_item)], {}) \<and>
   date_source recap_item = py ''inferred_report_month'' \<and>
   lower (strip (channel webinar_item)) = lower (strip (channel recap_item)) \<and>
   take 10 (clean_title (strip (title recap_item))) = take 10 (clean_title (title webinar_item))"
proof -
  let ?m = "[(dedup_key offline_env recap_item, recap_item), (dedup_key offline_env webinar_item, webinar_item)]"
  have h: "reconcile_step (dated_items ?m) (dedup_key offline_env recap_item, recap_item) (?m, {}) \<noteq> (?m, {})"
    by (simp add: ex_keys reconcile_defs recap_item_def webinar_item_def item_defs str_defs)
  have "lower (strip (channel webinar_item)) = lower (strip (channel recap_item))"
    "take 10 (clean_title (strip (title recap_item))) = take 10 (clean_title (title webinar_item))"
    by (simp_all add: reconcile_defs recap_item_def webinar_item_def item_defs str_defs)
  with h reconcile_step_merges_only_matches [OF h] show ?thesis by simp
qed

text \<open>
  C4 as stated fails: the cleaned title "q3 recap" has eight characters, so the two titles
  share no prefix of ten, and the channels differ in letter case; the pass merges the two
  records all the same.
\<close>

theorem reconcile_short_prefix_counterexample:
  "reconcile [(dedup_key offline_env short_item, short_item), (dedup_key offline_env long_item, long_item)]
     = [(dedup_key offline_env short_item,
         mk_item ''linkedin'' ''Post'' ''Q3 recap'' '''' ''9 Apr 2025'' ''2025-04-09'' ''2025-04'' ''matched_provided'' (Some 50))] \<and>
   channel short_item \<noteq> channel long_item \<and>
   length (clean_title (title short_item)) = 8"
  unfolding ex_keys
  by (simp add: reconcile_defs short_item_def long_item_def item_defs str_defs)

section \<open>The date of a row\<close>

lemmas date_defs = parse_report_month_def parse_human_date_def py_int_def py_date_def c_int_def
  days_in_month_def is_leap_def MONTHS_MAP_def split_def isdigit_def digits_val_def num_strip_def num_space_def

text \<open>
  Where both parsers return, the resolver follows the precedence: the provided date, else
  for a YouTube row with a link the confirmed date, else the first day of the reporting
  period, else no date.
\<close>

lemma resolve_date_precedence:
  assumes "parse_human_date date_text = Inr pd" and "parse_report_month rm_raw = Inr rd"
  shows "resolve_date E chan lnk date_text rm_raw st =
     Inr (case pd of
            Some d \<Rightarrow> ((Some d, py ''provided''), st)
          | None \<Rightarrow>
             (case (if lower chan = py ''youtube'' \<and> lnk \<noteq> []
                    then youtube_publish_date E lnk st else (None, st)) of
                (Some yd, st1) \<Rightarrow> ((Some yd, py ''youtube_publish''), st1)
              | (None, st1) \<Rightarrow>
                  (case rd of
                     Some rm \<Rightarrow> ((Some rm, py ''inferred_report_month''), st1)
                   | None \<Rightarrow> ((None, py ''unknown''), st1))))"
  using assms by (simp add: resolve_date_def split: option.splits prod.splits)

lemma parse_report_month_first_day:
  "parse_report_month s = Inr (Some d) \<Longrightarrow> d_day d = 1"
  by (auto simp: parse_report_month_def py_date_def Let_def
      split: if_splits list.splits sum.splits option.splits)

lemma isoformat_nonempty: "isoformat d \<noteq> [] \<and> month_key d \<noteq> []"
  by (simp add: isoformat_def month_key_def)

text \<open>
  A row whose tier is above "unknown" has a date, hence an ISO date and a month.
\<close>

lemma resolve_date_tier:
  assumes "resolve_date E chan lnk date_text rm_raw st = Inr ((d, src), st')"
    and "0 < priority src"
  shows "date_iso_of d \<noteq> [] \<and> mkey_of d \<noteq> []"
proof (cases d)
  case None
  with assms(1) have "src = py ''unknown''"
    by (auto simp: resolve_date_def split: sum.splits option.splits prod.splits if_splits)
  with assms(2) show ?thesis by (simp add: priority_def DATE_PRIORITY_def py_def)
next
  case (Some x)
  then show ?thesis by (simp add: date_iso_of_def mkey_of_def isoformat_nonempty)
qed

text \<open>
  C5 fails on the code for a row whose date must come from the reporting period when the
  period's year is outside 1..9999: \<open>parse_report_month\<close> lets the \<open>ValueError\<close> of
  \<open>dt.date\<close> escape, which \<open>parse_human_date\<close> catches, and the resolver assigns
  nothing to the row. Here a LinkedIn row with no date text and the period "January 0".
\<close>

theorem resolve_date_year_zero_raises:
  "parse_report_month (py ''January 0'') = Inl ValueError \<and>
   resolve_date offline_env (py ''LinkedIn'') [] [] (py ''January 0'') empty_ystate = Inl ValueError \<and>
   parse_human_date (py ''1 January 0'') = Inr None"
  by (simp add: resolve_date_def date_defs str_defs)

section \<open>The cache of publish dates\<close>

text \<open>A cached date answers the lookup: the state is unchanged, nothing is downloaded.\<close>

lemma youtube_publish_date_cached:
  assumes "normalize_youtube_url E url = Some norm_url" and "cache st norm_url = Some v"
    and "date_fromisoformat v = Some d"
  shows "youtube_publish_date E url st = (Some d, st)"
proof -
  have "v \<noteq> []" using assms(3) by (auto simp: date_fromisoformat_def date_shape_def)
  have "norm_url \<noteq> []" using assms(1)
    by (auto simp: normalize_youtube_url_def watch_url_def py_def Let_def
        split: if_splits option.splits prod.splits list.splits)
  then show ?thesis using assms by (simp add: youtube_publish_date_def)
qed

text \<open>
  A cached empty string does not: \<open>fromisoformat("")\<close> raises, the \<open>except\<close> clause
  passes, and the download is attempted again.
\<close>

lemma youtube_publish_date_cached_blank:
  assumes "normalize_youtube_url E url = Some norm_url" and "norm_url \<noteq> []" and "cache st norm_url = Some []"
  shows "fetches (snd (youtube_publish_date E url st)) = fetches st @ [norm_url]"
  using assms
  by (simp add: youtube_publish_date_def date_fromisoformat_def date_shape_def Let_def
      split: option.splits)

lemma normalize_youtu_be:
  "normalize_youtube_url offline_env (py ''https://youtu.be/dQw4w9WgXcQ'')
     = Some (py ''https://www.youtube.com/watch?v=dQw4w9WgXcQ'')"
  by (simp add: normalize_youtube_url_def YOUTUBE_ID_RE_def STUDIO_ID_RE_def startswith_def
      idchar_def watch_url_def str_defs)

lemma youtube_publish_date_first:
  "youtube_publish_date offline_env (py ''https://youtu.be/dQw4w9WgXcQ'') empty_ystate
     = (None, \<lparr>cache = [py ''https://www.youtube.com/watch?v=dQw4w9WgXcQ'' \<mapsto> []],
               fetches = [py ''https://www.youtube.com/watch?v=dQw4w9WgXcQ'']\<rparr>)"
  unfolding youtube_publish_date_def normalize_youtu_be
  by (simp add: offline_env_def empty_ystate_def ytdlp_date_def py_def)

text \<open>
  C8 fails on the code. Two rows with the same video link, on a machine where the lookup
  finds no date: the first lookup downloads the page and caches the empty string, the
  second finds the empty string in the cache and downloads the page again.
\<close>

theorem youtube_publish_date_blank_refetch:
  "cache (snd (youtube_publish_date offline_env (py ''https://youtu.be/dQw4w9WgXcQ'') empty_ystate))
      (py ''https://www.youtube.com/watch?v=dQw4w9WgXcQ'') = Some [] \<and>
   fetches (snd (youtube_publish_date offline_env (py ''https://youtu.be/dQw4w9WgXcQ'')
      (snd (youtube_publish_date offline_env (py ''https://youtu.be/dQw4w9WgXcQ'') empty_ystate))))
     = [py ''https://www.youtube.com/watch?v=dQw4w9WgXcQ'', py ''https://www.youtube.com/watch?v=dQw4w9WgXcQ'']"
proof -
  let ?norm = "py ''https://www.youtube.com/watch?v=dQw4w9WgXcQ''"
  let ?st1 = "snd (youtube_publish_date offline_env (py ''https://youtu.be/dQw4w9WgXcQ'') empty_ystate)"
  have c: "cache ?st1 ?norm = Some []" and f: "fetches ?st1 = [?norm]"
    by (simp_all add: youtube_publish_date_first)
  have n: "?norm \<noteq> []" by (simp add: py_def)
  from youtube_publish_date_cached_blank [OF normalize_youtu_be n c] f c show ?thesis by simp
qed

section \<open>The numeric parser\<close>

lemmas num_defs = parse_int_def py_float_def int_of_double_def decimal_def to_double_def
  round_half_even_def floor_log2_def bitlen.simps num_strip_def num_space_def isdigit_def digits_val_def

lemma set_strip: "set (strip s) \<subseteq> set s"
proof -
  have "set (rev (dropWhile isspace (rev (dropWhile isspace s)))) \<subseteq> set (dropWhile isspace s)"
    using set_dropWhileD [of _ isspace "rev (dropWhile isspace s)"] by auto
  also have "\<dots> \<subseteq> set s" using set_dropWhileD [of _ isspace s] by auto
  finally show ?thesis by (simp add: strip_def lstrip_def rstrip_def)
qed

lemma set_num_strip: "set (num_strip s) \<subseteq> set s"
proof -
  have "set (rev (dropWhile num_space (rev (dropWhile num_space s)))) \<subseteq> set (dropWhile num_space s)"
    using set_dropWhileD [of _ num_space "rev (dropWhile num_space s)"] by auto
  also have "\<dots> \<subseteq> set s" using set_dropWhileD [of _ num_space s] by auto
  finally show ?thesis by (simp add: num_strip_def)
qed

lemma decimal_nonneg:
  "(case decimal False ds ex of Fin b m e \<Rightarrow> \<not> b | Infinity b \<Rightarrow> \<not> b | NaN \<Rightarrow> True)"
  by (simp add: decimal_def to_double_def Let_def)

lemma py_float_sign:
  assumes "py_float t = Inr x" and "num_strip t = [] \<or> hd (num_strip t) \<noteq> 45"
  shows "(case x of Fin b m e \<Rightarrow> \<not> b | Infinity b \<Rightarrow> \<not> b | NaN \<Rightarrow> True)"
proof -
  have neg: "\<not> (num_strip t \<noteq> [] \<and> hd (num_strip t) = 45)" using assms(2) by auto
  from assms(1) show ?thesis
    unfolding py_float_def Let_def using neg decimal_nonneg
    by (auto split: if_splits prod.splits)
qed

lemma int_of_double_nonneg:
  "int_of_double x = Inr n \<Longrightarrow>
     (case x of Fin b m e \<Rightarrow> \<not> b | Infinity b \<Rightarrow> \<not> b | NaN \<Rightarrow> True) \<Longrightarrow> 0 \<le> n"
  by (auto simp: int_of_double_def Let_def split: pydouble.splits)

text \<open>
  C1, as the code has it. The integer that \<open>parse_int\<close> returns for a string without a
  minus sign is not negative (a string with a minus sign may give a negative integer).
\<close>

theorem parse_int_nonneg:
  assumes "parse_int (StrV s) = Inr (Some n)" and "45 \<notin> set s"
  shows "0 \<le> n"
proof -
  let ?t = "filter (\<lambda>c. c \<noteq> 44) (strip s)"
  from assms(1) obtain x where x: "py_float ?t = Inr x" and n: "int_of_double x = Inr n"
    by (auto simp: parse_int_def Let_def split: if_splits sum.splits py_error.splits)
  have "set (num_strip ?t) \<subseteq> set s" using set_num_strip [of ?t] set_strip [of s] by auto
  with assms(2) have "45 \<notin> set (num_strip ?t)" by auto
  then have "num_strip ?t = [] \<or> hd (num_strip ?t) \<noteq> 45"
    by (cases "num_strip ?t") auto
  from int_of_double_nonneg [OF n py_float_sign [OF x this]] show ?thesis .
qed

theorem parse_int_nonneg_witness:
  "parse_int (StrV (py ''1,234'')) = Inr (Some 1234) \<and> 45 \<notin> set (py ''1,234'') \<and> (0::int) \<le> 1234"
proof -
  have 1: "parse_int (StrV (py ''1,234'')) = Inr (Some 1234)" by (simp add: num_defs str_defs)
  have 2: "45 \<notin> set (py ''1,234'')" by (simp add: py_def)
  from parse_int_nonneg [OF 1 2] 1 2 show ?thesis by simp
qed

text \<open>
  C1 as stated fails: a cell with a minus sign gives a negative metric.
\<close>

theorem parse_int_negative_counterexample:
  "parse_int (StrV (py ''-5'')) = Inr (Some (- 5))"
  by (simp add: num_defs str_defs)

text \<open>
  C7 fails on the code: the cell "inf" is read by \<open>float\<close> as infinity, \<open>int\<close> raises
  \<open>OverflowError\<close> on it, and \<open>parse_int\<close> catches \<open>ValueError\<close> only. The other parts of
  the claim hold: commas are dropped, a decimal point is accepted, the empty cell, the
  em-dash and unparseable text give \<open>None\<close>.
\<close>

theorem parse_int_inf_raises:
  "parse_int (StrV (py ''inf'')) = Inl OverflowError \<and>
   parse_int (StrV (py '' 1,234.7 '')) = Inr (Some 1234) \<and>
   parse_int (StrV []) = Inr None \<and>
   parse_int (StrV [8212]) = Inr None \<and>
   parse_int (StrV (py ''n/a'')) = Inr None"
  by (simp add: num_defs str_defs)

section \<open>Rounding to a double, and back\<close>


lemma bitlen_0 [simp]: "bitlen 0 = 0" by (simp add: bitlen.simps)

lemma bitlen_pos: "0 < n \<Longrightarrow> bitlen n = Suc (bitlen (n div 2))"
  by (subst bitlen.simps) simp

lemma bitlen_upper: "n < 2 ^ bitlen n"
proof (induction n rule: bitlen.induct)
  case (1 n)
  show ?case
  proof (cases "n = 0")
    case True then show ?thesis by simp
  next
    case False
    with 1 have "n div 2 < 2 ^ bitlen (n div 2)" by simp
    then have "n < 2 * 2 ^ bitlen (n div 2)" by linarith
    with False show ?thesis by (simp add: bitlen_pos)
  qed
qed

lemma bitlen_lower: "0 < n \<Longrightarrow> 2 ^ (bitlen n - 1) \<le> n"
proof (induction n rule: bitlen.induct)
  case (1 n)
  show ?case
  proof (cases "n div 2 = 0")
    case True
    with 1(2) have "n = 1" by linarith
    then show ?thesis by (simp add: bitlen_pos)
  next
    case False
    with 1 have ih: "2 ^ (bitlen (n div 2) - 1) \<le> n div 2" by simp
    from False have "0 < bitlen (n div 2)" by (simp add: bitlen_pos)
    then have "(2::nat) ^ bitlen (n div 2) = 2 * 2 ^ (bitlen (n div 2) - 1)"
      by (cases "bitlen (n div 2)") simp_all
    with ih have "2 ^ bitlen (n div 2) \<le> n" by linarith
    with 1(2) show ?thesis by (simp add: bitlen_pos)
  qed
qed

lemma bitlen_le: "n < 2 ^ w \<Longrightarrow> bitlen n \<le> w"
proof (rule ccontr)
  assume a: "n < 2 ^ w" and "\<not> bitlen n \<le> w"
  then have w: "w \<le> bitlen n - 1" and pos: "0 < n" by (auto intro: gr0I)
  from w have "(2::nat) ^ w \<le> 2 ^ (bitlen n - 1)" by (rule power_increasing) simp
  with bitlen_lower [OF pos] a show False by linarith
qed

lemma bitlen_double: "0 < n \<Longrightarrow> bitlen (2 * n) = Suc (bitlen n)"
  by (simp add: bitlen_pos)

lemma bitlen_mult_pow2: "0 < m \<Longrightarrow> bitlen (m * 2 ^ e) = bitlen m + e"
proof (induction e)
  case 0 then show ?case by simp
next
  case (Suc e)
  then have "bitlen (2 * (m * 2 ^ e)) = Suc (bitlen (m * 2 ^ e))" by (intro bitlen_double) simp
  with Suc show ?case by (simp add: mult.commute mult.left_commute)
qed

lemma round_half_even_exact: "0 < d \<Longrightarrow> d dvd n \<Longrightarrow> round_half_even n d = n div d"
  by (auto simp: round_half_even_def Let_def)

lemma round_half_even_le: "round_half_even n d \<le> n div d + 1"
  by (simp add: round_half_even_def Let_def)


lemma powi_nat: "0 \<le> z \<Longrightarrow> (2::real) ^ nat z = 2 powi z"
  by (simp add: power_int_def)

lemma powi_cancel: "(x::real) * 2 powi k * 2 powi (- k) = x"
proof -
  have "(2::real) powi k * 2 powi (- k) = 2 powi (k + (- k))"
    by (rule power_int_add [symmetric]) simp
  then have "(2::real) powi k * 2 powi (- k) = 1" by simp
  then show ?thesis by (simp only: mult.assoc mult_1_right)
qed

lemma powi_shift_less: "(x::real) * 2 powi k < y \<Longrightarrow> x < y * 2 powi (- k)"
proof -
  assume "x * 2 powi k < y"
  then have "x * 2 powi k * 2 powi (- k) < y * 2 powi (- k)"
    by (rule mult_strict_right_mono) simp
  then show ?thesis by (simp only: powi_cancel)
qed

lemma floor_log2_upper:
  assumes "0 < num" and "0 < den"
  shows "real num < real den * 2 powi (floor_log2 num den + 1)"
proof -
  let ?k = "int (bitlen den) - int (bitlen num)"
  have un: "real num < 2 powi int (bitlen num)"
    using bitlen_upper [of num] by (metis of_nat_less_iff of_nat_numeral of_nat_power power_int_of_nat)
  have "2 ^ (bitlen den - 1) \<le> den" using bitlen_lower [OF assms(2)] .
  then have "real (2 ^ (bitlen den - 1)) \<le> real den" by (simp only: of_nat_le_iff)
  moreover have "0 < bitlen den" using assms(2) by (simp add: bitlen_pos)
  ultimately have ld: "2 powi (int (bitlen den) - 1) \<le> real den"
    by (simp add: power_int_def nat_diff_distrib')
  show ?thesis
  proof (cases "if 0 \<le> ?k then den \<le> num * 2 ^ nat ?k else den * 2 ^ nat (- ?k) \<le> num")
    case True
    then have fl: "floor_log2 num den + 1 = int (bitlen num) - int (bitlen den) + 1"
      by (simp add: floor_log2_def Let_def)
    have "(2::real) powi int (bitlen num) = 2 powi (int (bitlen den) - 1) * 2 powi (int (bitlen num) - int (bitlen den) + 1)"
      by (simp add: power_int_add [symmetric])
    also have "\<dots> \<le> real den * 2 powi (int (bitlen num) - int (bitlen den) + 1)"
      using ld by (intro mult_right_mono) simp_all
    finally have "(2::real) powi int (bitlen num)
        \<le> real den * 2 powi (int (bitlen num) - int (bitlen den) + 1)" .
    with un have "real num < real den * 2 powi (int (bitlen num) - int (bitlen den) + 1)"
      by (rule less_le_trans)
    then show ?thesis by (simp only: fl)
  next
    case False
    then have fl: "floor_log2 num den + 1 = - ?k"
      by (simp add: floor_log2_def Let_def)
    show ?thesis
    proof (cases "0 \<le> ?k")
      case True
      with False have "num * 2 ^ nat ?k < den" by simp
      then have "real (num * 2 ^ nat ?k) < real den" by (simp only: of_nat_less_iff)
      then have lt: "real num * (2::real) ^ nat ?k < real den"
        by (simp only: of_nat_mult of_nat_power of_nat_numeral)
      have "(2::real) ^ nat ?k = 2 powi ?k" using True by (rule powi_nat)
      with lt have "real num * 2 powi ?k < real den" by (simp only:)
      then have "real num < real den * 2 powi (- ?k)" by (rule powi_shift_less)
      then show ?thesis by (simp only: fl)
    next
      case k: False
      with False have "num < den * 2 ^ nat (- ?k)" by simp
      then have "real num < real (den * 2 ^ nat (- ?k))" by (simp only: of_nat_less_iff)
      then have lt: "real num < real den * (2::real) ^ nat (- ?k)"
        by (simp only: of_nat_mult of_nat_power of_nat_numeral)
      have "(2::real) ^ nat (- ?k) = 2 powi (- ?k)" using k by (intro powi_nat) simp
      with lt have "real num < real den * 2 powi (- ?k)" by (simp only:)
      then show ?thesis by (simp only: fl)
    qed
  qed
qed


lemma powi_shift_less': "(x::real) < y * 2 powi k \<Longrightarrow> x * 2 powi (- k) < y"
proof -
  assume "x < y * 2 powi k"
  then have "x * 2 powi (- k) < y * 2 powi k * 2 powi (- k)"
    by (rule mult_strict_right_mono) simp
  then show ?thesis by (simp only: powi_cancel)
qed

lemma round_half_even_bound: "n < d * k \<Longrightarrow> round_half_even n d \<le> k"
proof -
  assume "n < d * k"
  then have "n < k * d" by (simp only: mult.commute)
  then have "n div d < k" by (rule less_mult_imp_div_less)
  with round_half_even_le [of n d] show ?thesis by linarith
qed

lemma mantissa_bound:
  assumes "0 < num" and "0 < den" and "floor_log2 num den - 52 \<le> e"
  shows "(if 0 \<le> e then round_half_even num (den * 2 ^ nat e)
          else round_half_even (num * 2 ^ nat (- e)) den) \<le> 2 ^ 53"
proof -
  have U: "real num < real den * 2 powi (floor_log2 num den + 1)"
    using assms(1,2) by (rule floor_log2_upper)
  have "(2::real) powi (floor_log2 num den + 1) \<le> 2 powi (e + 53)"
    using assms(3) by (intro power_int_increasing) simp_all
  then have "real den * 2 powi (floor_log2 num den + 1) \<le> real den * 2 powi (e + 53)"
    by (intro mult_left_mono) simp_all
  with U have V: "real num < real den * 2 powi (e + 53)" by (rule less_le_trans)
  have split: "(2::real) powi (e + 53) = 2 powi e * 2 ^ 53"
  proof -
    have "(2::real) powi (e + 53) = 2 powi e * 2 powi 53" by (rule power_int_add) simp
    then show ?thesis by simp
  qed
  show ?thesis
  proof (cases "0 \<le> e")
    case True
    have "(2::real) ^ nat e = 2 powi e" using True by (rule powi_nat)
    then have "real (den * 2 ^ nat e * 2 ^ 53) = real den * 2 powi (e + 53)"
      by (simp only: of_nat_mult of_nat_power of_nat_numeral split mult.assoc)
    with V have "real num < real (den * 2 ^ nat e * 2 ^ 53)" by (simp only:)
    then have "num < den * 2 ^ nat e * 2 ^ 53" by (simp only: of_nat_less_iff)
    then have "round_half_even num (den * 2 ^ nat e) \<le> 2 ^ 53" by (rule round_half_even_bound)
    with True show ?thesis by simp
  next
    case False
    from V have "real num < real den * 2 ^ 53 * 2 powi e" by (simp only: split mult.assoc mult.commute [of "2 powi e"])
    then have W: "real num * 2 powi (- e) < real den * 2 ^ 53" by (rule powi_shift_less')
    have "(2::real) ^ nat (- e) = 2 powi (- e)" using False by (intro powi_nat) simp
    then have "real (num * 2 ^ nat (- e)) = real num * 2 powi (- e)"
      by (simp only: of_nat_mult of_nat_power of_nat_numeral)
    moreover have "real (den * 2 ^ 53) = real den * 2 ^ 53"
      by (simp only: of_nat_mult of_nat_power of_nat_numeral)
    ultimately have "real (num * 2 ^ nat (- e)) < real (den * 2 ^ 53)" using W by (simp only:)
    then have "num * 2 ^ nat (- e) < den * 2 ^ 53" by (simp only: of_nat_less_iff)
    then have "round_half_even (num * 2 ^ nat (- e)) den \<le> 2 ^ 53" by (rule round_half_even_bound)
    with False show ?thesis by simp
  qed
qed

lemma to_double_Fin:
  assumes "to_double neg num den = Fin b m e" and "0 < den"
  shows "b = neg \<and> m \<le> 2 ^ 53 \<and> (0 \<le> e \<longrightarrow> m * 2 ^ nat e < 2 ^ 1024)"
proof (cases "num = 0")
  case True
  with assms(1) show ?thesis by (simp add: to_double_def)
next
  case False
  let ?e = "max (floor_log2 num den - 52) (- 1074)"
  let ?m = "if 0 \<le> ?e then round_half_even num (den * 2 ^ nat ?e)
            else round_half_even (num * 2 ^ nat (- ?e)) den"
  from assms(1) False have r: "b = neg" "m = ?m" "e = ?e" "\<not> (0 \<le> ?e \<and> 2 ^ 1024 \<le> ?m * 2 ^ nat ?e)"
    by (auto simp: to_double_def Let_def split: if_splits)
  have "?m \<le> 2 ^ 53" using False assms(2) by (intro mantissa_bound) simp_all
  then have mb: "m \<le> 2 ^ 53" by (simp only: r(2))
  have ov: "0 \<le> e \<longrightarrow> m * 2 ^ nat e < 2 ^ 1024"
    unfolding r(2,3) using r(4) by (meson not_le)
  from r(1) mb ov show ?thesis by blast
qed


lemma bitlen_Suc_0 [simp]: "bitlen (Suc 0) = Suc 0"
  by (simp add: bitlen_pos)

lemma bitlen_1 [simp]: "bitlen 1 = 1"
  by simp

lemma floor_log2_one: "0 < a \<Longrightarrow> floor_log2 a 1 = int (bitlen a) - 1"
proof -
  assume a: "0 < a"
  then have b: "0 < bitlen a" by (simp add: bitlen_pos)
  have "2 ^ (bitlen a - 1) \<le> a" using a by (rule bitlen_lower)
  moreover have "nat (int (bitlen a) - 1) = bitlen a - 1" by simp
  ultimately show ?thesis using a b by (simp add: floor_log2_def Let_def)
qed

lemma to_double_exact:
  assumes "0 < a" and "a < 2 ^ 1024" and "2 ^ (bitlen a - 53) dvd a"
  shows "int_of_double (to_double neg a 1) = Inr (if neg then - int a else int a)"
proof -
  let ?e = "int (bitlen a) - 53"
  have nz: "a \<noteq> 0" using assms(1) by simp
  have b: "0 < bitlen a" using assms(1) by (simp add: bitlen_pos)
  then have e: "max (floor_log2 a 1 - 52) (- 1074) = ?e"
    using floor_log2_one [OF assms(1)] by simp
  show ?thesis
  proof (cases "0 \<le> ?e")
    case True
    then have ne: "nat ?e = bitlen a - 53" by simp
    let ?D = "(2::nat) ^ (bitlen a - 53)"
    have m: "round_half_even a (1 * ?D) = a div ?D"
      using assms(3) by (simp add: round_half_even_exact)
    have dm: "a div ?D * ?D = a" using assms(3) by simp
    then have "\<not> 2 ^ 1024 \<le> a div ?D * ?D" using assms(2) by (simp only: not_le)
    then have "to_double neg a 1 = Fin neg (a div ?D) ?e"
      using nz True unfolding to_double_def Let_def e ne m by (simp only: if_False if_True simp_thms)
    then show ?thesis using True dm by (simp add: int_of_double_def ne)
  next
    case False
    have "round_half_even (a * 2 ^ nat (- ?e)) 1 = a * 2 ^ nat (- ?e)"
      by (simp add: round_half_even_exact)
    then have "to_double neg a 1 = Fin neg (a * 2 ^ nat (- ?e)) ?e"
      using nz False unfolding to_double_def Let_def e by (simp only: if_False if_True simp_thms)
    then show ?thesis using False by (simp add: int_of_double_def)
  qed
qed

lemma trunc_representable:
  assumes "m \<le> 2 ^ 53" and "a = (if 0 \<le> e then m * 2 ^ nat e else m div 2 ^ nat (- e))" and "0 < a"
  shows "2 ^ (bitlen a - 53) dvd a"
proof (cases "0 \<le> e")
  case True
  with assms have a: "a = m * 2 ^ nat e" and m: "0 < m" by (auto intro: gr0I)
  show ?thesis
  proof (cases "m = 2 ^ 53")
    case True
    have "bitlen (1 * 2 ^ (53 + nat e)) = bitlen 1 + (53 + nat e)" by (rule bitlen_mult_pow2) simp
    moreover have a': "a = 1 * 2 ^ (53 + nat e)" using a True by (simp add: power_add)
    ultimately have "bitlen a = 54 + nat e" by simp
    then have "(2::nat) ^ (bitlen a - 53) dvd 2 ^ (53 + nat e)"
      by (intro le_imp_power_dvd) simp
    with a' show ?thesis by simp
  next
    case False
    with assms(1) have "m < 2 ^ 53" by simp
    then have "bitlen m \<le> 53" by (rule bitlen_le)
    then have "bitlen a - 53 \<le> nat e" using bitlen_mult_pow2 [OF m, of "nat e"] a by simp
    then have "(2::nat) ^ (bitlen a - 53) dvd 2 ^ nat e" by (rule le_imp_power_dvd)
    then show ?thesis unfolding a by (rule dvd_mult)
  qed
next
  case False
  then obtain k where k: "nat (- e) = Suc k" by (cases "nat (- e)") auto
  from False assms(2) have "a = m div (2 * 2 ^ k)" by (simp add: k)
  then have "a * (2 * 2 ^ k) \<le> m" by (simp add: div_times_less_eq_dividend)
  moreover have "a * 2 \<le> a * (2 * 2 ^ k)" by simp
  ultimately have "a * 2 \<le> 2 ^ 53" using assms(1) by linarith
  then have "a < 2 ^ 53" using assms(3) by linarith
  then have "bitlen a \<le> 53" by (rule bitlen_le)
  then show ?thesis by simp
qed

lemma roundtrip_double:
  assumes "int_of_double (to_double neg num den) = Inr n" and "0 < den"
  shows "int_of_double (to_double (n < 0) (nat \<bar>n\<bar>) 1) = Inr n"
proof -
  from assms(1) obtain b m e where x: "to_double neg num den = Fin b m e"
    by (cases "to_double neg num den") (auto simp: int_of_double_def)
  from to_double_Fin [OF x assms(2)]
  have b: "b = neg" and mb: "m \<le> 2 ^ 53" and ov: "0 \<le> e \<longrightarrow> m * 2 ^ nat e < 2 ^ 1024"
    by blast+
  define a where "a = (if 0 \<le> e then m * 2 ^ nat e else m div 2 ^ nat (- e))"
  from assms(1) x b have n: "n = (if neg then - int a else int a)"
    by (auto simp: int_of_double_def Let_def a_def)
  show ?thesis
  proof (cases "a = 0")
    case True
    with n have "n = 0" by simp
    then show ?thesis by (simp add: to_double_def int_of_double_def)
  next
    case False
    then have pos: "0 < a" by simp
    have rep: "2 ^ (bitlen a - 53) dvd a" using mb a_def pos by (rule trunc_representable)
    have lt: "a < 2 ^ 1024"
    proof (cases "0 \<le> e")
      case True
      with ov show ?thesis by (simp only: a_def if_True)
    next
      case False
      have "m div 2 ^ nat (- e) \<le> m" by (rule div_le_dividend)
      also have "m \<le> 2 ^ 53" by (rule mb)
      also have "(2::nat) ^ 53 < 2 ^ 1024" by (rule power_strict_increasing) simp_all
      finally show ?thesis using False by (simp only: a_def if_False)
    qed
    from pos n have sg: "(n < 0) = neg" and ab: "nat \<bar>n\<bar> = a" by (auto split: if_splits)
    from to_double_exact [OF pos lt rep, of neg]
    have "int_of_double (to_double neg a 1) = Inr n" by (simp only: n)
    then show ?thesis by (simp only: sg ab)
  qed
qed


section \<open>Parsing the decimal text of an integer\<close>


lemma str_nat_digits: "list_all isdigit (str_nat n) \<and> str_nat n \<noteq> []"
proof (induction n rule: str_nat.induct)
  case (1 n)
  show ?case
  proof (cases "n < 10")
    case True
    then show ?thesis by (subst (1 2) str_nat.simps) (simp add: isdigit_def)
  next
    case False
    have "n mod 10 < 10" by simp
    then have "isdigit (48 + n mod 10)" by (simp add: isdigit_def)
    with False 1 show ?thesis by (subst (1 2) str_nat.simps) simp
  qed
qed

lemma digits_val_snoc: "digits_val (ds @ [c]) = digits_val ds * 10 + (c - 48)"
  by (simp add: digits_val_def)

lemma digits_val_str_nat: "digits_val (str_nat n) = n"
proof (induction n rule: str_nat.induct)
  case (1 n)
  show ?case
  proof (cases "n < 10")
    case True
    then show ?thesis by (subst str_nat.simps) (simp add: digits_val_def)
  next
    case False
    with 1 have "digits_val (str_nat (n div 10)) = n div 10" by simp
    with False show ?thesis by (subst str_nat.simps) (simp add: digits_val_snoc)
  qed
qed

lemma scan_digits_all: "list_all isdigit ds \<Longrightarrow> scan_digits ds = (ds, [])"
  by (induction ds rule: scan_digits.induct) auto

lemma dropWhile_none: "\<forall>c\<in>set s. \<not> P c \<Longrightarrow> dropWhile P s = s"
  by (cases s) auto

lemma strip_none: "\<forall>c\<in>set s. \<not> isspace c \<Longrightarrow> strip s = s"
  by (simp add: strip_def lstrip_def rstrip_def dropWhile_none)

lemma num_strip_none: "\<forall>c\<in>set s. \<not> num_space c \<Longrightarrow> num_strip s = s"
  by (simp add: num_strip_def dropWhile_none)

lemma str_int_chars: "c \<in> set (str_int n) \<Longrightarrow> isdigit c \<or> c = 45"
  using str_nat_digits by (auto simp: str_int_def list_all_iff split: if_splits)

lemma isdigit_not_space: "isdigit c \<or> c = 45 \<Longrightarrow> \<not> isspace c \<and> \<not> num_space c \<and> c \<noteq> 44"
  by (auto simp: isdigit_def isspace_def num_space_def)

lemma hd_str_nat_digit: "isdigit (hd (str_nat n))"
  using str_nat_digits [of n] by (cases "str_nat n") auto

lemma decimal_roundtrip:
  "int_of_double (decimal neg ds ex) = Inr n \<Longrightarrow>
     int_of_double (to_double (n < 0) (nat \<bar>n\<bar>) 1) = Inr n"
proof -
  assume "int_of_double (decimal neg ds ex) = Inr n"
  then have a: "int_of_double (to_double neg (digits_val ds * 10 ^ nat ex) (10 ^ nat (- ex))) = Inr n"
    by (simp only: decimal_def)
  have "(0::nat) < 10 ^ nat (- ex)" by simp
  with a show ?thesis by (rule roundtrip_double)
qed

lemma py_float_roundtrip:
  assumes "py_float t = Inr x" and "int_of_double x = Inr n"
  shows "int_of_double (to_double (n < 0) (nat \<bar>n\<bar>) 1) = Inr n"
proof -
  have "x = NaN \<or> (\<exists>b. x = Infinity b) \<or> int_of_double (to_double (n < 0) (nat \<bar>n\<bar>) 1) = Inr n"
    using assms unfolding py_float_def Let_def
    by (auto split: if_splits prod.splits dest: decimal_roundtrip)
  with assms(2) show ?thesis by (auto simp: int_of_double_def)
qed

lemma py_float_str_int:
  "py_float (str_int n) = Inr (to_double (n < 0) (nat \<bar>n\<bar>) 1)"
proof -
  let ?M = "nat \<bar>n\<bar>"
  let ?t = "str_int n"
  have ns: "num_strip ?t = ?t"
    using str_int_chars isdigit_not_space by (intro num_strip_none) blast
  have d: "isdigit (hd (str_nat ?M))" by (rule hd_str_nat_digit)
  have ne: "str_nat ?M \<noteq> []" using str_nat_digits by blast
  have t: "?t = (if n < 0 then 45 # str_nat ?M else str_nat ?M)"
    by (simp add: str_int_def abs_if)
  have neg: "(?t \<noteq> [] \<and> hd ?t = 45) = (n < 0)"
    using d ne by (auto simp: t isdigit_def)
  have body: "(if ?t \<noteq> [] \<and> (hd ?t = 45 \<or> hd ?t = 43) then tl ?t else ?t) = str_nat ?M"
    using d ne by (auto simp: t isdigit_def)
  have "hd (lower (str_nat ?M)) = hd (str_nat ?M)"
    using d ne by (cases "str_nat ?M") (auto simp: lower_def lower_char_def isdigit_def)
  with d have "hd (lower (str_nat ?M)) \<noteq> 105 \<and> hd (lower (str_nat ?M)) \<noteq> 110"
    by (auto simp: isdigit_def)
  then have lb: "lower (str_nat ?M) \<noteq> py ''inf''" "lower (str_nat ?M) \<noteq> py ''infinity''"
    "lower (str_nat ?M) \<noteq> py ''nan''"
    by (auto simp: py_def)
  have sc: "scan_digits (str_nat ?M) = (str_nat ?M, [])"
    using str_nat_digits by (intro scan_digits_all) blast
  have "py_float ?t = Inr (decimal (n < 0) (str_nat ?M) 0)"
    unfolding py_float_def Let_def ns neg body using lb ne by (simp add: sc)
  then show ?thesis by (simp add: decimal_def digits_val_str_nat)
qed

text \<open>
  C9. If \<open>parse_int\<close> returns the integer \<open>n\<close> for a string, it returns \<open>n\<close> for the
  decimal text \<open>str(n)\<close> of \<open>n\<close> as well.
\<close>

theorem parse_int_idempotent:
  assumes "parse_int (StrV s) = Inr (Some n)"
  shows "parse_int (StrV (str_int n)) = Inr (Some n)"
proof -
  from assms obtain x where x: "py_float (filter (\<lambda>c. c \<noteq> 44) (strip s)) = Inr x"
    and n: "int_of_double x = Inr n"
    by (auto simp: parse_int_def Let_def split: if_splits sum.splits py_error.splits)
  have r: "int_of_double (to_double (n < 0) (nat \<bar>n\<bar>) 1) = Inr n"
    using x n by (rule py_float_roundtrip)
  have st: "strip (str_int n) = str_int n"
    using str_int_chars isdigit_not_space by (intro strip_none) blast
  have fl: "filter (\<lambda>c. c \<noteq> 44) (str_int n) = str_int n"
    using str_int_chars isdigit_not_space by (intro filter_True) blast
  have "hd (str_int n) \<in> set (str_int n)" "str_int n \<noteq> []"
    using str_nat_digits by (auto simp: str_int_def)
  then have ne: "str_int n \<noteq> []" "str_int n \<noteq> [8212]"
    using str_int_chars [of "hd (str_int n)" n] by (auto simp: isdigit_def)
  show ?thesis
    unfolding parse_int_def Let_def using ne r by (simp add: st fl py_float_str_int)
qed

theorem parse_int_idempotent_witness:
  "parse_int (StrV (py '' 1,234.7 '')) = Inr (Some 1234) \<and>
   parse_int (StrV (str_int 1234)) = Inr (Some 1234) \<and> str_int 1234 = py ''1234''"
proof -
  have 1: "parse_int (StrV (py '' 1,234.7 '')) = Inr (Some 1234)" by (simp add: num_defs str_defs)
  have 2: "str_int 1234 = py ''1234''" by (simp add: str_int_def str_nat.simps py_def)
  from parse_int_idempotent [OF 1] 1 2 show ?thesis by simp
qed


end
